theory Spec2Isabelle
  imports Complex_Main
begin

section \<open>Floating-point numbers\<close>

text \<open>
  The numbers of \<^verbatim>\<open>music_generator.py\<close> that come from the JSON files are Python floats,
  and \<^verbatim>\<open>np.sqrt\<close> returns a numpy \<^verbatim>\<open>float64\<close>: both are IEEE 754 binary64 values. A
  value is a finite number, an infinity or NaN. Every arithmetic operation of the matcher
  and of the planner rounds its exact result with \<open>round_double\<close>. The sign of zero,
  which no operation of the source observes, is not kept.
\<close>

datatype float64 = Finite real | PosInf | NegInf | NaN

text \<open>The exceptions that leave the functions of the source.\<close>

datatype error = OverflowError | ValueError | TypeError | InvalidDuration

text \<open>Rounding to the nearest integer, ties to the even one.\<close>

definition round_half_even :: "real \<Rightarrow> int" where
  "round_half_even x =
     (if x - real_of_int \<lfloor>x\<rfloor> < 1/2 then \<lfloor>x\<rfloor>
      else if 1/2 < x - real_of_int \<lfloor>x\<rfloor> then \<lfloor>x\<rfloor> + 1
      else if even \<lfloor>x\<rfloor> then \<lfloor>x\<rfloor> else \<lfloor>x\<rfloor> + 1)"

text \<open>
  The binary exponent of a number, not below the exponent \<open>-1022\<close> of the smallest normal
  binary64 number: the numbers of one binade are spaced \<open>2 powi (binade x - 52)\<close> apart.
\<close>

definition binade :: "real \<Rightarrow> int" where
  "binade x = max \<lfloor>log 2 \<bar>x\<bar>\<rfloor> (- 1022)"

text \<open>
  The binary64 value of an exact result: rounded to 53 significant bits, to the nearest
  with ties to even, and an infinity when the rounded magnitude reaches \<open>2 powi 1024\<close>.
\<close>

definition round_double :: "real \<Rightarrow> float64" where
  "round_double x =
     (if x = 0 then Finite 0
      else if 2 powi 1024 \<le>
              \<bar>real_of_int (round_half_even (x / 2 powi (binade x - 52))) * 2 powi (binade x - 52)\<bar>
      then (if 0 < x then PosInf else NegInf)
      else Finite (real_of_int (round_half_even (x / 2 powi (binade x - 52)))
                     * 2 powi (binade x - 52)))"

text \<open>\<^verbatim>\<open>a - b\<close> on floats. Python's subtraction raises no exception.\<close>

fun float_sub :: "float64 \<Rightarrow> float64 \<Rightarrow> float64" where
  "float_sub NaN b = NaN"
| "float_sub a NaN = NaN"
| "float_sub (Finite a) (Finite b) = round_double (a - b)"
| "float_sub (Finite a) PosInf = NegInf"
| "float_sub (Finite a) NegInf = PosInf"
| "float_sub PosInf PosInf = NaN"
| "float_sub PosInf b = PosInf"
| "float_sub NegInf NegInf = NaN"
| "float_sub NegInf b = NegInf"

text \<open>\<^verbatim>\<open>a + b\<close> on floats.\<close>

fun float_add :: "float64 \<Rightarrow> float64 \<Rightarrow> float64" where
  "float_add NaN b = NaN"
| "float_add a NaN = NaN"
| "float_add (Finite a) (Finite b) = round_double (a + b)"
| "float_add (Finite a) PosInf = PosInf"
| "float_add (Finite a) NegInf = NegInf"
| "float_add PosInf NegInf = NaN"
| "float_add PosInf b = PosInf"
| "float_add NegInf PosInf = NaN"
| "float_add NegInf b = NegInf"

text \<open>The product of an infinity with a finite number.\<close>

definition inf_times :: "bool \<Rightarrow> real \<Rightarrow> float64" where
  "inf_times positive a =
     (if a = 0 then NaN else if (0 < a) = positive then PosInf else NegInf)"

text \<open>\<^verbatim>\<open>a * b\<close> on floats.\<close>

fun float_mul :: "float64 \<Rightarrow> float64 \<Rightarrow> float64" where
  "float_mul NaN b = NaN"
| "float_mul a NaN = NaN"
| "float_mul (Finite a) (Finite b) = round_double (a * b)"
| "float_mul (Finite a) PosInf = inf_times True a"
| "float_mul (Finite a) NegInf = inf_times False a"
| "float_mul PosInf (Finite b) = inf_times True b"
| "float_mul NegInf (Finite b) = inf_times False b"
| "float_mul PosInf PosInf = PosInf"
| "float_mul NegInf NegInf = PosInf"
| "float_mul PosInf NegInf = NegInf"
| "float_mul NegInf PosInf = NegInf"

text \<open>
  \<^verbatim>\<open>x ** 2\<close> on a Python float. Python computes it with \<^verbatim>\<open>pow\<close> of the C library,
  whose result is taken to be the square rounded to the nearest float. A finite operand
  whose square is out of range raises \<^verbatim>\<open>OverflowError\<close>, an infinite operand gives
  infinity and NaN gives NaN.
\<close>

fun float_pow2 :: "float64 \<Rightarrow> error + float64" where
  "float_pow2 (Finite a) =
     (case round_double (a * a) of
        Finite r \<Rightarrow> Inr (Finite r)
      | PosInf \<Rightarrow> Inl OverflowError
      | NegInf \<Rightarrow> Inl OverflowError
      | NaN \<Rightarrow> Inr NaN)"
| "float_pow2 PosInf = Inr PosInf"
| "float_pow2 NegInf = Inr PosInf"
| "float_pow2 NaN = Inr NaN"

text \<open>
  \<^verbatim>\<open>np.sqrt\<close>: the square root, correctly rounded; numpy raises no exception (for a
  negative argument it warns and returns NaN).
\<close>

fun np_sqrt :: "float64 \<Rightarrow> float64" where
  "np_sqrt (Finite a) = (if a < 0 then NaN else round_double (sqrt a))"
| "np_sqrt PosInf = PosInf"
| "np_sqrt NegInf = NaN"
| "np_sqrt NaN = NaN"

text \<open>\<^verbatim>\<open>a < b\<close> on floats: false whenever an operand is NaN.\<close>

fun float_less :: "float64 \<Rightarrow> float64 \<Rightarrow> bool" where
  "float_less NaN b = False"
| "float_less a NaN = False"
| "float_less (Finite a) (Finite b) = (a < b)"
| "float_less (Finite a) PosInf = True"
| "float_less (Finite a) NegInf = False"
| "float_less PosInf b = False"
| "float_less NegInf NegInf = False"
| "float_less NegInf b = True"

text \<open>
  The conversion of a Python int to a float, which \<^verbatim>\<open>float * int\<close> performs: rounded to
  the nearest, and \<^verbatim>\<open>OverflowError\<close> for an int that is too large.
\<close>

definition int_to_float :: "int \<Rightarrow> error + float64" where
  "int_to_float n =
     (case round_double (real_of_int n) of
        Finite r \<Rightarrow> Inr (Finite r)
      | PosInf \<Rightarrow> Inl OverflowError
      | NegInf \<Rightarrow> Inl OverflowError
      | NaN \<Rightarrow> Inr NaN)"

text \<open>
  \<^verbatim>\<open>int(x)\<close> on a float truncates towards zero; it raises \<^verbatim>\<open>OverflowError\<close> for an
  infinity and \<^verbatim>\<open>ValueError\<close> for NaN.
\<close>

fun py_int :: "float64 \<Rightarrow> error + int" where
  "py_int (Finite x) = Inr (if 0 \<le> x then \<lfloor>x\<rfloor> else \<lceil>x\<rceil>)"
| "py_int PosInf = Inl OverflowError"
| "py_int NegInf = Inl OverflowError"
| "py_int NaN = Inl ValueError"

text \<open>
  The progress messages of lines 68, 100 and 106 print \<^verbatim>\<open>n / 1000\<close> for the ints
  \<^verbatim>\<open>duration\<close>, \<^verbatim>\<open>crossfade_duration\<close> and \<^verbatim>\<open>total_duration\<close>. The true division
  of two ints gives the quotient rounded to a float and raises \<^verbatim>\<open>OverflowError\<close> when
  the quotient is out of the range of floats; the quotient itself is only printed, so the
  model keeps whether the division raises. The other messages divide the length of a
  buffer by 1000, which is far within the range of floats for every buffer that fits in
  memory, and print nothing else that can fail.
\<close>

definition seconds_raises :: "int \<Rightarrow> bool" where
  "seconds_raises n \<longleftrightarrow>
     (case round_double (real_of_int n / 1000) of
        Finite r \<Rightarrow> False
      | PosInf \<Rightarrow> True
      | NegInf \<Rightarrow> True
      | NaN \<Rightarrow> False)"

section \<open>Data model\<close>

text \<open>
  The emotion dictionaries carry two floats under the keys \<^verbatim>\<open>'valence'\<close> and
  \<^verbatim>\<open>'arousal'\<close> (\<^verbatim>\<open>Dict[str, float]\<close> in the signature of \<^verbatim>\<open>find_closest_music\<close>).
\<close>

record emotion_point =
  valence :: float64
  arousal :: float64

text \<open>
  One entry of \<^verbatim>\<open>text_emotions['paragraphs']\<close>: the paragraph's emotions and its
  \<^verbatim>\<open>proportion\<close> dictionary with the keys \<^verbatim>\<open>'start'\<close> and \<^verbatim>\<open>'end'\<close>.
\<close>

record paragraph_entry =
  emotions :: emotion_point
  proportion_start :: float64
  proportion_end :: float64

text \<open>
  \<^verbatim>\<open>music_library\<close> is a Python dict; the loop of \<^verbatim>\<open>find_closest_music\<close> walks
  \<^verbatim>\<open>music_library.items()\<close>, so the model is the list of its items in insertion order.
\<close>

type_synonym music_library = "(string \<times> emotion_point) list"

section \<open>find\_closest\_music\<close>

text \<open>
  Lines 25 to 28. The two squares are computed first, the left one before the right one;
  either may raise \<^verbatim>\<open>OverflowError\<close>.
\<close>

definition distance :: "emotion_point \<Rightarrow> emotion_point \<Rightarrow> error + float64" where
  "distance target music_emotions =
     (case float_pow2 (float_sub (valence target) (valence music_emotions)) of
        Inl e \<Rightarrow> Inl e
      | Inr valence_square \<Rightarrow>
          (case float_pow2 (float_sub (arousal target) (arousal music_emotions)) of
             Inl e \<Rightarrow> Inl e
           | Inr arousal_square \<Rightarrow> Inr (np_sqrt (float_add valence_square arousal_square))))"

text \<open>
  The \<^verbatim>\<open>for\<close> loop over the items, with the two loop variables \<^verbatim>\<open>min_distance\<close>
  (\<^verbatim>\<open>float('inf')\<close> at the start) and \<^verbatim>\<open>closest_music\<close> (\<^verbatim>\<open>None\<close> or a file name) as
  accumulators. An exception ends the loop.
\<close>

fun closest_loop ::
  "emotion_point \<Rightarrow> string set \<Rightarrow> music_library \<Rightarrow> float64 \<Rightarrow> string option
     \<Rightarrow> error + string option"
where
  "closest_loop target used_music [] min_distance closest_music = Inr closest_music"
| "closest_loop target used_music ((music_file, music_emotions) # rest) min_distance closest_music =
     (if music_file \<in> used_music
      then closest_loop target used_music rest min_distance closest_music
      else (case distance target music_emotions of
              Inl e \<Rightarrow> Inl e
            | Inr d \<Rightarrow>
                if float_less d min_distance
                then closest_loop target used_music rest d (Some music_file)
                else closest_loop target used_music rest min_distance closest_music))"

definition find_closest_music ::
  "emotion_point \<Rightarrow> music_library \<Rightarrow> string set \<Rightarrow> error + string option"
where
  "find_closest_music emotions_arg music_library used_music =
     closest_loop emotions_arg used_music music_library PosInf None"

section \<open>Audio buffers\<close>

text \<open>
  Modelled from the spec: the SampleBuffer of the spec is pydub's \<^verbatim>\<open>AudioSegment\<close>, which
  is not part of the repository. A buffer is a finite sequence of samples whose length is
  measured in milliseconds; the model keeps one amplitude per millisecond (one frame per
  millisecond), so that \<^verbatim>\<open>len(seg)\<close> is the length of the list and \<^verbatim>\<open>seg + seg\<close> is list
  concatenation.
\<close>

type_synonym audio = "real list"

text \<open>
  Modelled from the spec: the positions of \<^verbatim>\<open>slice\<close>. pydub's \<^verbatim>\<open>_parse_position\<close>
  counts a negative position from the end of the buffer.
\<close>

definition parse_position :: "audio \<Rightarrow> int \<Rightarrow> int" where
  "parse_position seg val = (if val < 0 then int (length seg) - \<bar>val\<bar> else val)"

text \<open>
  The Python slice \<^verbatim>\<open>data[s:e]\<close> that pydub takes of the frames: a negative bound counts
  from the end, and bounds outside the data are clipped.
\<close>

definition py_slice :: "audio \<Rightarrow> int \<Rightarrow> int \<Rightarrow> audio" where
  "py_slice data s e =
     (let n = int (length data);
          s' = (if s < 0 then max 0 (n + s) else min s n);
          e' = (if e < 0 then max 0 (n + e) else min e n)
      in take (nat (e' - s')) (drop (nat s') data))"

text \<open>
  Modelled from the spec: \<^verbatim>\<open>slice(buffer, 0, e)\<close>, written \<^verbatim>\<open>seg[:e]\<close> in the source.
  pydub clips the end to the length, parses it as a position and slices the frames.
\<close>

definition slice_to :: "audio \<Rightarrow> int \<Rightarrow> audio" where
  "slice_to seg e = py_slice seg 0 (parse_position seg (min e (int (length seg))))"

text \<open>\<^verbatim>\<open>seg[s:]\<close> for a start that is not negative, the only kind that the fades take.\<close>

definition slice_from :: "audio \<Rightarrow> nat \<Rightarrow> audio" where
  "slice_from seg s = drop s seg"

text \<open>
  \<^verbatim>\<open>seg[i]\<close> for an integer \<open>i\<close>: the millisecond from position \<open>i\<close> to position
  \<open>i + 1\<close>, both parsed; it is empty where there is no such millisecond.
\<close>

definition item_ms :: "audio \<Rightarrow> int \<Rightarrow> audio" where
  "item_ms seg i = py_slice seg (parse_position seg i) (parse_position seg (i + 1))"

text \<open>pydub's \<^verbatim>\<open>get_frame\<close>: the frame at an index, which is not parsed.\<close>

definition get_frame :: "audio \<Rightarrow> int \<Rightarrow> audio" where
  "get_frame seg i = py_slice seg i (i + 1)"

text \<open>
  Modelled from the spec: \<^verbatim>\<open>silence_of_length\<close>, \<^verbatim>\<open>AudioSegment.silent(duration=d)\<close>
  in the source, for a duration within the range of floats (pydub divides it by the float
  1000.0). A negative duration gives the empty buffer.
\<close>

definition silent :: "int \<Rightarrow> audio" where
  "silent duration = replicate (nat duration) 0"

text \<open>The samples of a buffer multiplied by a factor (\<^verbatim>\<open>audioop.mul\<close>).\<close>

definition scaled :: "real \<Rightarrow> audio \<Rightarrow> audio" where
  "scaled factor seg = map (\<lambda>s. s * factor) seg"

text \<open>
  Modelled from the spec: \<^verbatim>\<open>fade_in\<close>, a linear ramp in amplitude at the start of the
  buffer. The operation is \<^verbatim>\<open>seg.fade_in(d)\<close> of pydub, which is not part of the
  repository; where the spec is silent the definition follows pydub's
  \<^verbatim>\<open>fade(from_gain=-120, duration=d, start=0)\<close>. A negative duration raises
  \<^verbatim>\<open>InvalidDuration\<close>; the duration 0 is taken as absent, and the subtraction
  \<^verbatim>\<open>end - start\<close> with the absent end raises \<^verbatim>\<open>TypeError\<close>. Otherwise the result is
  the part before the start, one chunk for each of the \<open>d\<close> steps of the ramp from the
  gain 0.000001 (-120 dB) to the gain 1, and the part after the end. A fade over more
  than 100 ms takes the chunk \<^verbatim>\<open>self[start + i]\<close>, a shorter one takes
  \<^verbatim>\<open>get_frame(start + i)\<close>.
\<close>

definition segment_fade_in :: "audio \<Rightarrow> int \<Rightarrow> error + audio" where
  "segment_fade_in seg d =
     (if d < 0 then Inl InvalidDuration
      else if d = 0 then Inl TypeError
      else Inr (scaled (1 / 1000000) (slice_to seg 0)
                @ concat (map (\<lambda>i. scaled (1 / 1000000
                                               + (1 - 1 / 1000000) / real_of_int d * real i)
                                       (if 100 < d then item_ms seg (int i)
                                        else get_frame seg (int i)))
                           [0..<nat d])
                @ slice_from seg (nat d)))"

text \<open>
  Modelled from the spec: \<^verbatim>\<open>fade_out\<close>, a linear ramp in amplitude at the end of the
  buffer; \<^verbatim>\<open>seg.fade_out(d)\<close> of pydub, which is
  \<^verbatim>\<open>fade(to_gain=-120, duration=d, end=float('inf'))\<close>: the end is the length of the
  buffer and the start is \<open>d\<close> before it, which is negative for a fade longer than the
  buffer.
\<close>

definition segment_fade_out :: "audio \<Rightarrow> int \<Rightarrow> error + audio" where
  "segment_fade_out seg d =
     (if d < 0 then Inl InvalidDuration
      else if d = 0 then Inl TypeError
      else Inr (slice_to seg (int (length seg) - d)
                @ concat (map (\<lambda>i. scaled (1 + (1 / 1000000 - 1) / real_of_int d * real i)
                                       (if 100 < d then item_ms seg (int (length seg) - d + int i)
                                        else get_frame seg (int (length seg) - d + int i)))
                           [0..<nat d])
                @ scaled (1 / 1000000) (slice_from seg (length seg))))"

text \<open>
  Modelled from the spec: \<^verbatim>\<open>fade_in\<close> and \<^verbatim>\<open>fade_out\<close> as \<^verbatim>\<open>main\<close> applies them to the
  ambient sound, always with the duration 3000 on a buffer of 60000 ms, where they cannot
  fail: linear ramps in amplitude over the given window at the start and at the end of the
  buffer.
\<close>

definition fade_in :: "audio \<Rightarrow> int \<Rightarrow> audio" where
  "fade_in seg d =
     map (\<lambda>(i, s). if int i < d then s * (real i / real_of_int d) else s)
       (enumerate 0 seg)"

definition fade_out :: "audio \<Rightarrow> int \<Rightarrow> audio" where
  "fade_out seg d =
     map (\<lambda>(i, s). if int (length seg - Suc i) < d
                     then s * (real (length seg - Suc i) / real_of_int d) else s)
       (enumerate 0 seg)"

text \<open>
  Modelled from the spec: the linear cross-fade of the overlapped part of
  \<^verbatim>\<open>crossfade_concatenate\<close>. The two arguments are the trailing part of the first buffer
  and the leading part of the second; the first fades out while the second fades in.
\<close>

definition crossfade_zip :: "audio \<Rightarrow> audio \<Rightarrow> audio" where
  "crossfade_zip tail_a head_b =
     map (\<lambda>(i, (u, v)).
            u * (1 - real i / real (length tail_a)) + v * (real i / real (length tail_a)))
       (enumerate 0 (zip tail_a head_b))"

text \<open>
  Modelled from the spec: \<^verbatim>\<open>crossfade_concatenate\<close>, \<^verbatim>\<open>a.append(b, crossfade=x)\<close> in the
  source, which belongs to pydub. The trailing \<open>x\<close> milliseconds of \<open>a\<close> are overlapped
  with the leading \<open>x\<close> milliseconds of \<open>b\<close>; the spec states the length law
  \<open>len a + len b - x\<close> for \<open>x \<le> min (len a) (len b)\<close>. Outside that range pydub's
  \<^verbatim>\<open>append\<close> raises \<^verbatim>\<open>ValueError\<close> (the crossfade is longer than one of the two
  buffers), and a crossfade of 0 is plain concatenation. The definition is meant for a
  crossfade that is not negative, the only kind that the statements below join with.
\<close>

definition append_crossfade :: "audio \<Rightarrow> audio \<Rightarrow> int \<Rightarrow> error + audio" where
  "append_crossfade a b crossfade =
     (if crossfade = 0 then Inr (a @ b)
      else if crossfade > int (length a) then Inl ValueError
      else if crossfade > int (length b) then Inl ValueError
      else Inr (take (length a - nat crossfade) a
                @ crossfade_zip (drop (length a - nat crossfade) a) (take (nat crossfade) b)
                @ drop (nat crossfade) b))"

section \<open>create\_music\_sequence\<close>

text \<open>
  Lines 59 to 68: the duration of paragraph \<open>i\<close> (0-based, from \<^verbatim>\<open>enumerate\<close>). The
  product converts \<^verbatim>\<open>total_duration\<close> to a float; the conversion and \<^verbatim>\<open>int\<close> may raise,
  and so may the message of line 68, which prints the duration in seconds.
\<close>

definition paragraph_duration :: "int \<Rightarrow> int \<Rightarrow> nat \<Rightarrow> paragraph_entry \<Rightarrow> error + int" where
  "paragraph_duration total_duration crossfade_duration i p =
     (case int_to_float total_duration of
        Inl e \<Rightarrow> Inl e
      | Inr total_float \<Rightarrow>
          (case py_int (float_mul (float_sub (proportion_end p) (proportion_start p))
                          total_float) of
             Inl e \<Rightarrow> Inl e
           | Inr raw_duration \<Rightarrow>
               (let duration = (if i > 0 then raw_duration + crossfade_duration
                                else raw_duration)
                in if seconds_raises duration then Inl OverflowError else Inr duration)))"

text \<open>
  Lines 44 to 48: \<^verbatim>\<open>music_files\<close> holds the decoded audio of every library key whose
  file exists. The file system is the partial map \<open>fs\<close> from a library key to the audio
  that \<^verbatim>\<open>AudioSegment.from_wav\<close> decodes from \<^verbatim>\<open>music_library/<key>\<close>; \<open>None\<close> is a
  path that does not exist. A file that exists is taken to be a WAV file that decodes.
\<close>

fun load_music_files ::
  "(string \<rightharpoonup> audio) \<Rightarrow> music_library \<Rightarrow> (string \<rightharpoonup> audio) \<Rightarrow> (string \<rightharpoonup> audio)"
where
  "load_music_files fs [] music_files = music_files"
| "load_music_files fs ((music_file, music_emotions) # rest) music_files =
     (case fs music_file of
        None \<Rightarrow> load_music_files fs rest music_files
      | Some seg \<Rightarrow> load_music_files fs rest (music_files(music_file \<mapsto> seg)))"

text \<open>
  Lines 83 and 84: the doubling loop. It does not return on an empty buffer with a positive
  duration, so the loop is a partial function and not returning is the value \<open>None\<close>.
\<close>

partial_function (option) loop_music :: "audio \<Rightarrow> int \<Rightarrow> audio option" where
  "loop_music music_segment duration =
     (if int (length music_segment) < duration
      then loop_music (music_segment @ music_segment) duration
      else Some music_segment)"

text \<open>Lines 83 to 87: loop, then trim to the duration.\<close>

definition loop_and_trim :: "audio \<Rightarrow> int \<Rightarrow> audio option" where
  "loop_and_trim music_segment duration =
     (case loop_music music_segment duration of
        None \<Rightarrow> None
      | Some looped \<Rightarrow> Some (slice_to looped duration))"

record planner_state =
  used_music :: "string set"
  music_segments :: "audio list"

text \<open>
  The body of the paragraph loop, lines 58 to 90. \<^verbatim>\<open>closest_music not in music_files\<close>
  holds for \<^verbatim>\<open>None\<close> and for a key without loaded audio; both \<^verbatim>\<open>continue\<close>. The
  result is \<open>None\<close> when the doubling loop does not return, \<open>Some (Inl e)\<close> when the
  exception \<open>e\<close> leaves the body and \<open>Some (Inr st)\<close> when the body ends in the state
  \<open>st\<close>.
\<close>

definition process_paragraph ::
  "music_library \<Rightarrow> (string \<rightharpoonup> audio) \<Rightarrow> int \<Rightarrow> int \<Rightarrow> nat \<Rightarrow> paragraph_entry
     \<Rightarrow> planner_state \<Rightarrow> (error + planner_state) option"
where
  "process_paragraph music_library music_files total_duration crossfade_duration i p st =
     (case paragraph_duration total_duration crossfade_duration i p of
        Inl e \<Rightarrow> Some (Inl e)
      | Inr duration \<Rightarrow>
          (case find_closest_music (emotions p) music_library (used_music st) of
             Inl e \<Rightarrow> Some (Inl e)
           | Inr None \<Rightarrow> Some (Inr st)
           | Inr (Some closest_music) \<Rightarrow>
               (case music_files closest_music of
                  None \<Rightarrow> Some (Inr st)
                | Some music_segment \<Rightarrow>
                    (case loop_and_trim music_segment duration of
                       None \<Rightarrow> None
                     | Some trimmed \<Rightarrow>
                         Some (Inr \<lparr>used_music = insert closest_music (used_music st),
                                    music_segments = music_segments st @ [trimmed]\<rparr>)))))"

fun process_paragraphs ::
  "music_library \<Rightarrow> (string \<rightharpoonup> audio) \<Rightarrow> int \<Rightarrow> int \<Rightarrow> nat \<Rightarrow> paragraph_entry list
     \<Rightarrow> planner_state \<Rightarrow> (error + planner_state) option"
where
  "process_paragraphs music_library music_files total_duration crossfade_duration i [] st =
     Some (Inr st)"
| "process_paragraphs music_library music_files total_duration crossfade_duration i (p # ps) st =
     (case process_paragraph music_library music_files total_duration crossfade_duration i p st of
        None \<Rightarrow> None
      | Some (Inl e) \<Rightarrow> Some (Inl e)
      | Some (Inr st') \<Rightarrow>
          process_paragraphs music_library music_files total_duration crossfade_duration
            (Suc i) ps st')"

text \<open>
  Lines 96 to 102: the crossfade joins, left to right; an exception ends the loop. Each
  round prints the crossfade in seconds (line 100) before it joins.
\<close>

fun join_segments :: "audio \<Rightarrow> audio list \<Rightarrow> int \<Rightarrow> error + audio" where
  "join_segments final_audio [] crossfade_duration = Inr final_audio"
| "join_segments final_audio (segment # rest) crossfade_duration =
     (if seconds_raises crossfade_duration then Inl OverflowError
      else (case append_crossfade final_audio segment crossfade_duration of
              Inl e \<Rightarrow> Inl e
            | Inr joined \<Rightarrow> join_segments joined rest crossfade_duration))"

text \<open>Lines 108 to 115: the joined buffer is trimmed or padded to the total duration.\<close>

definition adjust_length :: "audio \<Rightarrow> int \<Rightarrow> audio" where
  "adjust_length final_audio total_duration =
     (if int (length final_audio) > total_duration
      then slice_to final_audio total_duration
      else if int (length final_audio) < total_duration
      then final_audio @ silent (total_duration - int (length final_audio))
      else final_audio)"

text \<open>
  Lines 93 to 122: the assembly of the prepared segments. Without segments the silent
  buffer is returned at once (line 94); otherwise the segments are joined, the target
  length is printed in seconds (line 106), the joined buffer is adjusted and the two fades
  are applied.
\<close>

definition assemble :: "audio list \<Rightarrow> int \<Rightarrow> int \<Rightarrow> int \<Rightarrow> error + audio" where
  "assemble segments total_duration crossfade_duration fade_duration =
     (case segments of
        [] \<Rightarrow> Inr (silent total_duration)
      | first # rest \<Rightarrow>
          (case join_segments first rest crossfade_duration of
             Inl e \<Rightarrow> Inl e
           | Inr final_audio \<Rightarrow>
               if seconds_raises total_duration then Inl OverflowError
               else (case segment_fade_in (adjust_length final_audio total_duration)
                            fade_duration of
                       Inl e \<Rightarrow> Inl e
                     | Inr faded \<Rightarrow> segment_fade_out faded fade_duration)))"

text \<open>
  The whole function. The result is \<open>None\<close> when a doubling loop does not return,
  \<open>Some (Inl e)\<close> when the exception \<open>e\<close> leaves the function and \<open>Some (Inr buffer)\<close>
  when it returns.
\<close>

definition create_music_sequence ::
  "paragraph_entry list \<Rightarrow> music_library \<Rightarrow> (string \<rightharpoonup> audio) \<Rightarrow> int \<Rightarrow> int \<Rightarrow> int
     \<Rightarrow> (error + audio) option"
where
  "create_music_sequence paragraphs music_library fs total_duration crossfade_duration fade_duration =
     (case process_paragraphs music_library (load_music_files fs music_library Map.empty)
             total_duration crossfade_duration 0 paragraphs
             \<lparr>used_music = {}, music_segments = []\<rparr> of
        None \<Rightarrow> None
      | Some (Inl e) \<Rightarrow> Some (Inl e)
      | Some (Inr st) \<Rightarrow>
          Some (assemble (music_segments st) total_duration crossfade_duration fade_duration))"

text \<open>
  The assignment list of a run. The source keeps only the prepared buffers in
  \<^verbatim>\<open>music_segments\<close>; this function lists, paragraph by paragraph, what lines 59 to 76
  decide: \<open>None\<close> for a paragraph that is skipped, and the clip id with the planned
  duration (the SegmentAssignment of the spec) for a paragraph that gets a clip. The list
  ends at a paragraph whose duration or whose match raises an exception.
\<close>

fun assignments ::
  "music_library \<Rightarrow> (string \<rightharpoonup> audio) \<Rightarrow> int \<Rightarrow> int \<Rightarrow> nat \<Rightarrow> paragraph_entry list
     \<Rightarrow> string set \<Rightarrow> (string \<times> int) option list"
where
  "assignments music_library music_files total_duration crossfade_duration i [] used = []"
| "assignments music_library music_files total_duration crossfade_duration i (p # ps) used =
     (case paragraph_duration total_duration crossfade_duration i p of
        Inl e \<Rightarrow> []
      | Inr duration \<Rightarrow>
          (case find_closest_music (emotions p) music_library used of
             Inl e \<Rightarrow> []
           | Inr None \<Rightarrow>
               None # assignments music_library music_files total_duration crossfade_duration
                        (Suc i) ps used
           | Inr (Some closest_music) \<Rightarrow>
               (case music_files closest_music of
                  None \<Rightarrow>
                    None # assignments music_library music_files total_duration
                             crossfade_duration (Suc i) ps used
                | Some music_segment \<Rightarrow>
                    Some (closest_music, duration)
                      # assignments music_library music_files total_duration crossfade_duration
                          (Suc i) ps (insert closest_music used))))"

text \<open>The entries of the assignment list that are not skipped, in order.\<close>

definition assigned :: "(string \<times> int) option list \<Rightarrow> (string \<times> int) list" where
  "assigned outcomes = List.map_filter id outcomes"

section \<open>main: mixing with the ambient sound\<close>

text \<open>
  Modelled from the spec: \<^verbatim>\<open>np.log10\<close> belongs to numpy, which is not part of the
  repository. Its result is a float that may be infinite or NaN: the logarithm of 0 is
  negative infinity (the spec says so), the logarithm of a negative number is NaN.
\<close>

definition np_log10 :: "real \<Rightarrow> float64" where
  "np_log10 v = (if 0 < v then Finite (log 10 v) else if v = 0 then NegInf else NaN)"

fun times20 :: "float64 \<Rightarrow> float64" where
  "times20 (Finite x) = Finite (20 * x)"
| "times20 PosInf = PosInf"
| "times20 NegInf = NegInf"
| "times20 NaN = NaN"

text \<open>Lines 171 and 172: \<^verbatim>\<open>20 * np.log10(volume)\<close>.\<close>

definition volume_to_db :: "real \<Rightarrow> float64" where
  "volume_to_db volume = times20 (np_log10 volume)"

fun is_finite :: "float64 \<Rightarrow> bool" where
  "is_finite (Finite x) = True"
| "is_finite PosInf = False"
| "is_finite NegInf = False"
| "is_finite NaN = False"

text \<open>Lines 156 to 162: the ambient sound is trimmed or looped to 60 seconds.\<close>

definition ambient_to_60s :: "audio \<Rightarrow> audio option" where
  "ambient_to_60s ambient_sound =
     (if int (length ambient_sound) > 60000 then Some (slice_to ambient_sound 60000)
      else if int (length ambient_sound) < 60000
      then (case loop_music ambient_sound 60000 of
              None \<Rightarrow> None
            | Some looped \<Rightarrow> Some (slice_to looped 60000))
      else Some ambient_sound)"

text \<open>
  What \<^verbatim>\<open>main\<close> writes to \<^verbatim>\<open>final_output_audio.wav\<close>. Gain adjustment
  (\<^verbatim>\<open>segment + db\<close>) and \<^verbatim>\<open>overlay\<close> are pydub's; the model records the two buffers
  and the two gains in decibels that \<^verbatim>\<open>main\<close> hands to them: the music, \<^verbatim>\<open>music_db\<close>, the
  ambient sound, \<^verbatim>\<open>ambient_db\<close>.
\<close>

datatype final_output =
    Music_Alone audio
  | Overlay audio float64 audio float64

text \<open>
  Lines 147 to 189. \<open>ambience_files\<close> is the decoded audio of the \<^verbatim>\<open>.wav\<close> files of the
  \<^verbatim>\<open>ambience\<close> folder in the order of \<^verbatim>\<open>os.listdir\<close>; \<open>pick\<close> is the number drawn by
  \<^verbatim>\<open>random.choice\<close>, which selects an index below the length of the list.
\<close>

definition mix_with_ambient ::
  "audio \<Rightarrow> audio list \<Rightarrow> nat \<Rightarrow> real \<Rightarrow> real \<Rightarrow> final_output option"
where
  "mix_with_ambient final_audio ambience_files pick ambient_volume music_volume =
     (if ambience_files \<noteq> [] then
        (case ambient_to_60s (ambience_files ! (pick mod length ambience_files)) of
           None \<Rightarrow> None
         | Some ambient_sound \<Rightarrow>
             Some (Overlay final_audio (volume_to_db music_volume)
                     (fade_out (fade_in ambient_sound 3000) 3000)
                     (volume_to_db ambient_volume)))
      else Some (Music_Alone final_audio))"

text \<open>
  \<^verbatim>\<open>main\<close>: the pair of the two exported buffers, \<^verbatim>\<open>generated_music.wav\<close> and
  \<^verbatim>\<open>final_output_audio.wav\<close>.
\<close>

definition main ::
  "paragraph_entry list \<Rightarrow> music_library \<Rightarrow> (string \<rightharpoonup> audio) \<Rightarrow> audio list \<Rightarrow> nat
     \<Rightarrow> real \<Rightarrow> real \<Rightarrow> (error + audio \<times> final_output) option"
where
  "main paragraphs music_library fs ambience_files pick ambient_volume music_volume =
     (case create_music_sequence paragraphs music_library fs 60000 5000 3000 of
        None \<Rightarrow> None
      | Some (Inl e) \<Rightarrow> Some (Inl e)
      | Some (Inr final_audio) \<Rightarrow>
          (case mix_with_ambient final_audio ambience_files pick ambient_volume music_volume of
             None \<Rightarrow> None
           | Some mixed \<Rightarrow> Some (Inr (final_audio, mixed))))"

section \<open>Specification predicates and example inputs\<close>

text \<open>
  The distance of a library item as the matcher sees it: the computed distance of an item
  that is not excluded, when it is a finite number. An excluded item, and an item whose
  computed distance is infinite or NaN, can never pass the test of line 29.
\<close>

definition candidate_distance :: "emotion_point \<Rightarrow> string set \<Rightarrow> string \<times> emotion_point \<Rightarrow> real option" where
  "candidate_distance target used item =
     (if fst item \<in> used then None
      else (case distance target (snd item) of
              Inr (Finite d) \<Rightarrow> Some d
            | _ \<Rightarrow> None))"

text \<open>
  The library item makes the matcher raise: it is not excluded, and one of the squares of
  lines 26 and 27 is out of the range of floats.
\<close>

definition raises_overflow :: "emotion_point \<Rightarrow> string set \<Rightarrow> string \<times> emotion_point \<Rightarrow> bool" where
  "raises_overflow target used item \<longleftrightarrow>
     fst item \<notin> used \<and> distance target (snd item) = Inl OverflowError"

text \<open>
  Index \<open>j\<close> of the library is the closest candidate: it has a distance, no item with a
  distance is nearer to the target, and every such item before it is strictly farther (the
  first of several nearest candidates wins).
\<close>

definition closest_candidate :: "emotion_point \<Rightarrow> music_library \<Rightarrow> string set \<Rightarrow> nat \<Rightarrow> bool" where
  "closest_candidate target lib used j \<longleftrightarrow>
     j < length lib \<and>
     (\<exists>dj. candidate_distance target used (lib ! j) = Some dj \<and>
        (\<forall>k < length lib. \<forall>dk. candidate_distance target used (lib ! k) = Some dk \<longrightarrow>
            dj \<le> dk \<and> (k < j \<longrightarrow> dj < dk)))"

text \<open>
  A prepared segment belongs to an assignment: the clip of the assignment is loaded, and
  looping and trimming it to the planned duration gives the segment.
\<close>

definition prepared :: "(string \<rightharpoonup> audio) \<Rightarrow> audio \<Rightarrow> string \<times> int \<Rightarrow> bool" where
  "prepared music_files segment a \<longleftrightarrow>
     (case music_files (fst a) of
        None \<Rightarrow> False
      | Some clip \<Rightarrow> loop_and_trim clip (snd a) = Some segment)"

text \<open>
  The condition of line 72 under which a paragraph is skipped: the matcher returns
  \<^verbatim>\<open>None\<close>, or the matched id has no loaded audio.
\<close>

definition skipped ::
  "music_library \<Rightarrow> (string \<rightharpoonup> audio) \<Rightarrow> string set \<Rightarrow> paragraph_entry \<Rightarrow> bool"
where
  "skipped music_library music_files used p \<longleftrightarrow>
     (case find_closest_music (emotions p) music_library used of
        Inl e \<Rightarrow> False
      | Inr None \<Rightarrow> True
      | Inr (Some closest_music) \<Rightarrow> music_files closest_music = None)"

text \<open>The state in which the paragraph loop starts (lines 51 and 54).\<close>

definition initial_state :: planner_state where
  "initial_state = \<lparr>used_music = {}, music_segments = []\<rparr>"

text \<open>
  The gain that a fade-in over \<open>d\<close> milliseconds applies to millisecond \<open>i\<close>: a linear
  ramp from 0.000001 (-120 dB) at the start to 1 at millisecond \<open>d\<close>.
\<close>

definition fade_in_gain :: "int \<Rightarrow> nat \<Rightarrow> real" where
  "fade_in_gain d i =
     (if int i < d then 1 / 1000000 + (1 - 1 / 1000000) / real_of_int d * real i else 1)"

text \<open>
  The gain that a fade-out over the last \<open>d\<close> milliseconds of a buffer of \<open>n\<close>
  milliseconds applies to millisecond \<open>i\<close>: 1 before the fade, then a linear ramp down
  towards 0.000001.
\<close>

definition fade_out_gain :: "nat \<Rightarrow> int \<Rightarrow> nat \<Rightarrow> real" where
  "fade_out_gain n d i =
     (if int i < int n - d then 1
      else 1 + (1 / 1000000 - 1) / real_of_int d * real (i - nat (int n - d)))"

text \<open>The neutral emotion, and a library with two candidates at the same distance from it.\<close>

definition origin :: emotion_point where
  "origin = \<lparr>valence = Finite 0, arousal = Finite 0\<rparr>"


text \<open>A library with one clip.\<close>

definition one_clip :: music_library where
  "one_clip = [(''x'', \<lparr>valence = Finite 0, arousal = Finite 0\<rparr>)]"


definition huge_target :: emotion_point where
  "huge_target = \<lparr>valence = Finite (2 ^ 512), arousal = Finite 0\<rparr>"


text \<open>Two paragraphs that split the track in halves, and a library of two clips.\<close>

definition two_paragraphs :: "paragraph_entry list" where
  "two_paragraphs =
     [\<lparr>emotions = \<lparr>valence = Finite 0, arousal = Finite 0\<rparr>,
       proportion_start = Finite 0, proportion_end = Finite (1/2)\<rparr>,
      \<lparr>emotions = \<lparr>valence = Finite 3, arousal = Finite 4\<rparr>,
       proportion_start = Finite (1/2), proportion_end = Finite 1\<rparr>]"

definition two_clips :: music_library where
  "two_clips = [(''x'', \<lparr>valence = Finite 0, arousal = Finite 0\<rparr>),
                (''y'', \<lparr>valence = Finite 3, arousal = Finite 4\<rparr>)]"

definition two_files :: "string \<rightharpoonup> audio" where
  "two_files = [''x'' \<mapsto> [1, 2, 3], ''y'' \<mapsto> [4, 5]]"

text \<open>A file system in which the file of clip \<open>x\<close> is missing.\<close>

definition only_y :: "string \<rightharpoonup> audio" where
  "only_y = [''y'' \<mapsto> [4, 5]]"

text \<open>Two paragraphs with the same emotions.\<close>

definition calm_twice :: "paragraph_entry list" where
  "calm_twice =
     [\<lparr>emotions = \<lparr>valence = Finite 0, arousal = Finite 0\<rparr>,
       proportion_start = Finite 0, proportion_end = Finite (1/2)\<rparr>,
      \<lparr>emotions = \<lparr>valence = Finite 0, arousal = Finite 0\<rparr>,
       proportion_start = Finite (1/2), proportion_end = Finite 1\<rparr>]"

text \<open>A paragraph that covers three quarters of the text.\<close>

definition three_quarters :: paragraph_entry where
  "three_quarters =
     \<lparr>emotions = \<lparr>valence = Finite 0, arousal = Finite 0\<rparr>,
      proportion_start = Finite 0, proportion_end = Finite (3/4)\<rparr>"

text \<open>
  A paragraph from 0 to 0.7, and one from 0.2 to 0.6; the three fractions are the floats
  that Python reads from the decimal numerals.
\<close>

definition seven_tenths :: paragraph_entry where
  "seven_tenths =
     \<lparr>emotions = \<lparr>valence = Finite 0, arousal = Finite 0\<rparr>,
      proportion_start = Finite 0,
      proportion_end = Finite (3152519739159347 / 2 ^ 52)\<rparr>"

definition fifth_to_three_fifths :: paragraph_entry where
  "fifth_to_three_fifths =
     \<lparr>emotions = \<lparr>valence = Finite 0, arousal = Finite 0\<rparr>,
      proportion_start = Finite (3602879701896397 / 2 ^ 54),
      proportion_end = Finite (5404319552844595 / 2 ^ 53)\<rparr>"

text \<open>A first paragraph that covers one sixteenth of the text, and clips of one second.\<close>

definition short_first :: "paragraph_entry list" where
  "short_first =
     [\<lparr>emotions = \<lparr>valence = Finite 0, arousal = Finite 0\<rparr>,
       proportion_start = Finite 0, proportion_end = Finite (1/16)\<rparr>,
      \<lparr>emotions = \<lparr>valence = Finite 3, arousal = Finite 4\<rparr>,
       proportion_start = Finite (1/16), proportion_end = Finite 1\<rparr>]"

definition long_files :: "string \<rightharpoonup> audio" where
  "long_files = [''x'' \<mapsto> replicate 1000 0, ''y'' \<mapsto> replicate 1000 0]"

text \<open>One paragraph that covers the whole text.\<close>

definition whole_text :: "paragraph_entry list" where
  "whole_text =
     [\<lparr>emotions = \<lparr>valence = Finite 0, arousal = Finite 0\<rparr>,
       proportion_start = Finite 0, proportion_end = Finite 1\<rparr>]"

text \<open>Three paragraphs for a library of two clips.\<close>

definition three_paragraphs :: "paragraph_entry list" where
  "three_paragraphs =
     [\<lparr>emotions = \<lparr>valence = Finite 0, arousal = Finite 0\<rparr>,
       proportion_start = Finite 0, proportion_end = Finite (1/4)\<rparr>,
      \<lparr>emotions = \<lparr>valence = Finite 3, arousal = Finite 4\<rparr>,
       proportion_start = Finite (1/4), proportion_end = Finite (1/2)\<rparr>,
      \<lparr>emotions = \<lparr>valence = Finite 0, arousal = Finite 0\<rparr>,
       proportion_start = Finite (1/2), proportion_end = Finite 1\<rparr>]"

text \<open>A paragraph whose emotions are far from every clip.\<close>

definition huge_paragraph :: paragraph_entry where
  "huge_paragraph =
     \<lparr>emotions = huge_target, proportion_start = Finite 0, proportion_end = Finite 1\<rparr>"

section \<open>Rounding to binary64\<close>

text \<open>
  The value of \<open>round_double\<close> in a known binade, the numbers that it leaves unchanged,
  and a bound below which it is finite.
\<close>

lemma round_half_even_of_int [simp]: "round_half_even (real_of_int n) = n"
  by (simp add: round_half_even_def)

lemma floor_log2_eq:
  assumes "2 powi e \<le> \<bar>x\<bar>" "\<bar>x\<bar> < 2 powi (e + 1)"
  shows "\<lfloor>log 2 \<bar>x\<bar>\<rfloor> = e"
proof -
  have "0 < (2::real) powi e" by simp
  then have pos: "0 < \<bar>x\<bar>" using assms(1) by linarith
  have "(2::real) powr real_of_int e = 2 powi e" "(2::real) powr (real_of_int e + 1) = 2 powi (e + 1)"
    using powr_real_of_int'[of 2 e] powr_real_of_int'[of 2 "e + 1"] by simp_all
  then show ?thesis using assms pos floor_log_eq_powr_iff[of "\<bar>x\<bar>" 2 e] by simp
qed

lemma round_double_eval:
  assumes "2 powi e \<le> \<bar>x\<bar>" "\<bar>x\<bar> < 2 powi (e + 1)" "- 1022 \<le> e"
  shows "round_double x =
     (if 2 powi 1024 \<le> \<bar>real_of_int (round_half_even (x / 2 powi (e - 52))) * 2 powi (e - 52)\<bar>
      then (if 0 < x then PosInf else NegInf)
      else Finite (real_of_int (round_half_even (x / 2 powi (e - 52))) * 2 powi (e - 52)))"
proof -
  have "0 < (2::real) powi e" by simp
  then have "0 < \<bar>x\<bar>" using assms(1) by linarith
  then have "x \<noteq> 0" by simp
  moreover have "binade x = e" using floor_log2_eq[OF assms(1,2)] assms(3) by (simp add: binade_def)
  ultimately show ?thesis by (simp add: round_double_def)
qed

lemma round_double_exact:
  assumes "x = real_of_int m * 2 powi k" "\<bar>m\<bar> < 2 ^ 53" "- 1074 \<le> k" "k \<le> 971"
  shows "round_double x = Finite x"
proof (cases "x = 0")
  case True
  then show ?thesis by (simp add: round_double_def)
next
  case False
  have pos: "0 < \<bar>x\<bar>" using False by simp
  define E where "E = binade x"
  have lt: "\<bar>x\<bar> < 2 powi (k + 53)"
  proof -
    have "\<bar>x\<bar> = \<bar>real_of_int m\<bar> * 2 powi k" using assms(1) by (simp add: abs_mult)
    also have "\<dots> < 2 ^ 53 * 2 powi k"
    proof -
      have "\<bar>real_of_int m\<bar> < 2 ^ 53"
        using assms(2) by (metis of_int_abs of_int_less_numeral_power_cancel_iff)
      then show ?thesis by (simp add: mult_strict_right_mono)
    qed
    also have "\<dots> = 2 powi (k + 53)" by (simp add: power_int_add)
    finally show ?thesis .
  qed
  have "log 2 \<bar>x\<bar> < real_of_int (k + 53)"
  proof -
    have "(2::real) powr real_of_int (k + 53) = 2 powi (k + 53)"
      using powr_real_of_int'[of 2 "k + 53"] by simp
    then show ?thesis using lt pos by (simp add: log_less_iff)
  qed
  then have "\<lfloor>log 2 \<bar>x\<bar>\<rfloor> < k + 53" by (simp add: floor_less_iff)
  then have Ek: "E - 52 \<le> k" using assms(3) by (simp add: E_def binade_def)
  define n where "n = nat (k - (E - 52))"
  have kq: "(2::real) powi k = 2 ^ n * 2 powi (E - 52)"
  proof -
    have "k = int n + (E - 52)" using Ek by (simp add: n_def)
    then have "(2::real) powi k = 2 powi (int n) * 2 powi (E - 52)"
      by (metis power_int_add zero_neq_numeral)
    then show ?thesis by simp
  qed
  have q: "x / 2 powi (E - 52) = real_of_int (m * 2 ^ n)"
    using assms(1) kq by simp
  have r: "real_of_int (round_half_even (x / 2 powi (E - 52))) * 2 powi (E - 52) = x"
    unfolding q round_half_even_of_int using assms(1) kq by simp
  have "\<bar>x\<bar> < 2 powi 1024"
  proof -
    have "(2::real) powi (k + 53) \<le> 2 powi 1024"
      using assms(4) by (intro power_int_increasing) auto
    then show ?thesis using lt by linarith
  qed
  then show ?thesis using False r by (simp add: round_double_def E_def[symmetric])
qed

lemma round_half_even_near: "\<bar>real_of_int (round_half_even z) - z\<bar> \<le> 1"
proof -
  have "real_of_int \<lfloor>z\<rfloor> \<le> z" "z < real_of_int \<lfloor>z\<rfloor> + 1" by linarith+
  then show ?thesis by (auto simp: round_half_even_def)
qed

lemma round_double_bound: "round_double x = Finite r \<Longrightarrow> \<bar>r\<bar> < 2 powi 1024"
  by (auto simp: round_double_def split: if_splits)

lemma round_double_finite:
  assumes "\<bar>x\<bar> < 2 powi 1023"
  shows "\<exists>r. round_double x = Finite r"
proof (cases "x = 0")
  case True
  then show ?thesis by (simp add: round_double_def)
next
  case False
  have pos: "0 < \<bar>x\<bar>" using False by simp
  define E where "E = binade x"
  define q :: real where "q = 2 powi (E - 52)"
  have "log 2 \<bar>x\<bar> < real_of_int 1023"
  proof -
    have "(2::real) powr real_of_int 1023 = 2 powi 1023"
      using powr_real_of_int'[of 2 1023] by simp
    then show ?thesis using assms pos by (simp add: log_less_iff)
  qed
  then have "\<lfloor>log 2 \<bar>x\<bar>\<rfloor> < 1023" by (simp add: floor_less_iff)
  then have E: "E \<le> 1022" by (simp add: E_def binade_def)
  have qpos: "0 < q" by (simp add: q_def)
  have qle: "q \<le> 2 powi 970"
    unfolding q_def using E by (intro power_int_increasing) auto
  let ?m = "real_of_int (round_half_even (x / q))"
  have "\<bar>?m\<bar> \<le> \<bar>x / q\<bar> + 1"
    using round_half_even_near[of "x / q"] by linarith
  then have "\<bar>?m\<bar> * q \<le> (\<bar>x / q\<bar> + 1) * q"
    using qpos by (simp add: mult_right_mono)
  also have "\<dots> = \<bar>x\<bar> + q" using qpos by (simp add: field_simps abs_if)
  also have "\<dots> < 2 powi 1023 + 2 powi 970" using assms qle by linarith
  also have "\<dots> \<le> (2::real) powi 1024" by simp
  finally have "\<bar>?m * q\<bar> < 2 powi 1024" using qpos by (simp add: abs_mult)
  then show ?thesis using False by (simp add: round_double_def E_def[symmetric] q_def[symmetric])
qed

lemma seconds_raises_small [simp]: "\<bar>n\<bar> < 2 ^ 1023 \<Longrightarrow> seconds_raises n = False"
proof -
  assume a: "\<bar>n\<bar> < 2 ^ 1023"
  have "\<bar>real_of_int n\<bar> < 2 ^ 1023"
    using a by (metis of_int_abs of_int_less_numeral_power_cancel_iff)
  then have "\<bar>real_of_int n / 1000\<bar> < 2 powi 1023" by simp
  from round_double_finite[OF this] show ?thesis by (auto simp: seconds_raises_def)
qed

lemma round_double_of_int:
  "\<bar>m\<bar> < 2 ^ 53 \<Longrightarrow> round_double (real_of_int m) = Finite (real_of_int m)"
  using round_double_exact[of "real_of_int m" m 0] by simp

lemma round_double_dyadic:
  assumes "\<bar>m\<bar> < 2 ^ 53" "j \<le> 1074"
  shows "round_double (real_of_int m / 2 ^ j) = Finite (real_of_int m / 2 ^ j)"
proof -
  have "real_of_int m / 2 ^ j = real_of_int m * 2 powi (- int j)"
    by (simp add: power_int_minus field_simps)
  then show ?thesis
    using round_double_exact[of "real_of_int m / 2 ^ j" m "- int j"] assms by simp
qed

lemma round_double_0 [simp]: "round_double 0 = Finite 0"
  by (simp add: round_double_def)

lemma round_double_1 [simp]: "round_double 1 = Finite 1"
  using round_double_of_int[of 1] by simp

lemma round_double_numeral [simp]:
  "numeral n < (2::int) ^ 53 \<Longrightarrow> round_double (numeral n) = Finite (numeral n)"
  using round_double_of_int[of "numeral n"] by simp

lemma round_double_neg_numeral [simp]:
  "numeral n < (2::int) ^ 53 \<Longrightarrow> round_double (- numeral n) = Finite (- numeral n)"
  using round_double_of_int[of "- numeral n"] by simp

lemma round_double_neg_1 [simp]: "round_double (- 1) = Finite (- 1)"
  using round_double_of_int[of "- 1"] by simp

lemma round_double_fractions [simp]:
  "round_double (1 / 2) = Finite (1 / 2)"
  "round_double (1 / 16) = Finite (1 / 16)"
  "round_double (15 / 16) = Finite (15 / 16)"
  "round_double (3 / 4) = Finite (3 / 4)"
  "round_double (15 / 4) = Finite (15 / 4)"
  using round_double_dyadic[of 1 1] round_double_dyadic[of 1 4] round_double_dyadic[of 15 4]
    round_double_dyadic[of 3 2] round_double_dyadic[of 15 2]
  by simp_all

lemma round_double_quarter [simp]: "round_double (1 / 4) = Finite (1 / 4)"
  using round_double_dyadic[of 1 2] by simp

lemma round_double_eighths [simp]:
  "round_double (5 / 8) = Finite (5 / 8)"
  "round_double (75 / 8) = Finite (75 / 8)"
  using round_double_dyadic[of 5 3] round_double_dyadic[of 75 3] by simp_all

lemma sqrt_25 [simp]: "sqrt 25 = 5"
  using real_sqrt_abs[of 5] by simp

section \<open>Properties of find\_closest\_music\<close>

lemma float_pow2_error: "float_pow2 x = Inl e \<Longrightarrow> e = OverflowError"
  by (cases x) (auto split: float64.splits)

lemma distance_error: "distance target m = Inl e \<Longrightarrow> e = OverflowError"
  by (auto simp: distance_def split: sum.splits dest: float_pow2_error)

lemma round_double_not_NegInf: "0 \<le> x \<Longrightarrow> round_double x \<noteq> NegInf"
  by (simp add: round_double_def)

lemma np_sqrt_not_NegInf: "np_sqrt x \<noteq> NegInf"
  by (cases x) (simp_all add: round_double_not_NegInf)

lemma distance_not_NegInf: "distance target m \<noteq> Inr NegInf"
  by (auto simp: distance_def np_sqrt_not_NegInf split: sum.splits)

lemma float_less_PosInf: "d \<noteq> NegInf \<Longrightarrow> float_less d PosInf \<longleftrightarrow> (\<exists>v. d = Finite v)"
  by (cases d) simp_all

lemma float_less_Finite: "d \<noteq> NegInf \<Longrightarrow> float_less d (Finite m) \<longleftrightarrow> (\<exists>v. d = Finite v \<and> v < m)"
  by (cases d) simp_all

lemma candidate_distance_used: "f \<in> used \<Longrightarrow> candidate_distance target used (f, e) = None"
  by (simp add: candidate_distance_def)

lemma candidate_distance_Inr:
  "f \<notin> used \<Longrightarrow> distance target e = Inr d \<Longrightarrow>
     candidate_distance target used (f, e) = (case d of Finite v \<Rightarrow> Some v | _ \<Rightarrow> None)"
  by (simp add: candidate_distance_def split: float64.splits)

lemma closest_candidate_snoc:
  assumes "closest_candidate target pre used j"
    and "candidate_distance target used (pre ! j) = Some dj"
    and "\<forall>dk. candidate_distance target used x = Some dk \<longrightarrow> dj \<le> dk"
  shows "closest_candidate target (pre @ [x]) used j"
proof -
  have jl: "j < length pre" using assms(1) by (simp add: closest_candidate_def)
  have all: "\<forall>k < length pre. \<forall>dk. candidate_distance target used (pre ! k) = Some dk \<longrightarrow>
            dj \<le> dk \<and> (k < j \<longrightarrow> dj < dk)"
    using assms(1,2) by (auto simp: closest_candidate_def)
  have "\<forall>k < length (pre @ [x]). \<forall>dk. candidate_distance target used ((pre @ [x]) ! k) = Some dk \<longrightarrow>
            dj \<le> dk \<and> (k < j \<longrightarrow> dj < dk)"
  proof (intro allI impI)
    fix k dk
    assume k: "k < length (pre @ [x])"
      and d: "candidate_distance target used ((pre @ [x]) ! k) = Some dk"
    show "dj \<le> dk \<and> (k < j \<longrightarrow> dj < dk)"
    proof (cases "k < length pre")
      case True
      then show ?thesis using all d by (simp add: nth_append)
    next
      case False
      then have "k = length pre" using k by simp
      then show ?thesis using d assms(3) jl by simp
    qed
  qed
  moreover have "candidate_distance target used ((pre @ [x]) ! j) = Some dj"
    using jl assms(2) by (simp add: nth_append)
  moreover have "j < length (pre @ [x])" using jl by simp
  ultimately show ?thesis unfolding closest_candidate_def by blast
qed

lemma closest_candidate_new:
  assumes "candidate_distance target used x = Some d"
    and "\<forall>k < length pre. \<forall>dk. candidate_distance target used (pre ! k) = Some dk \<longrightarrow> d < dk"
  shows "closest_candidate target (pre @ [x]) used (length pre)"
  using assms by (auto simp: closest_candidate_def nth_append less_Suc_eq)

text \<open>
  The loop invariant: after the items \<open>pre\<close>, either nothing has been chosen and no item
  so far has a distance, or the chosen file is the closest candidate of \<open>pre\<close> and
  \<^verbatim>\<open>min_distance\<close> is its distance. The loop raises exactly when an item raises.
\<close>

lemma closest_loop_inv:
  assumes "\<forall>k < length pre. \<not> raises_overflow target used (pre ! k)"
    and "(closest = None \<and> md = PosInf \<and>
            (\<forall>k < length pre. candidate_distance target used (pre ! k) = None)) \<or>
         (\<exists>j dj. closest_candidate target pre used j \<and>
            candidate_distance target used (pre ! j) = Some dj \<and>
            closest = Some (fst (pre ! j)) \<and> md = Finite dj)"
  shows "((\<exists>k < length (pre @ rest). raises_overflow target used ((pre @ rest) ! k)) \<and>
            closest_loop target used rest md closest = Inl OverflowError) \<or>
         ((\<forall>k < length (pre @ rest). \<not> raises_overflow target used ((pre @ rest) ! k)) \<and>
            ((closest_loop target used rest md closest = Inr None \<and>
               (\<forall>k < length (pre @ rest). candidate_distance target used ((pre @ rest) ! k) = None)) \<or>
             (\<exists>j. closest_candidate target (pre @ rest) used j \<and>
                closest_loop target used rest md closest = Inr (Some (fst ((pre @ rest) ! j))))))"
  using assms
proof (induction rest arbitrary: pre md closest)
  case Nil
  then show ?case by auto
next
  case (Cons x rest)
  obtain f e where x: "x = (f, e)" by (cases x)
  have app: "pre @ x # rest = (pre @ [x]) @ rest" by simp
  let ?pre = "pre @ [x]"
  show ?case
  proof (cases "f \<in> used")
    case True
    have cd: "candidate_distance target used x = None"
      using True x by (simp add: candidate_distance_used)
    have nr: "\<forall>k < length ?pre. \<not> raises_overflow target used (?pre ! k)"
      using Cons.prems(1) True x
      by (auto simp: nth_append less_Suc_eq raises_overflow_def)
    have inv: "(closest = None \<and> md = PosInf \<and>
            (\<forall>k < length ?pre. candidate_distance target used (?pre ! k) = None)) \<or>
         (\<exists>j dj. closest_candidate target ?pre used j \<and>
            candidate_distance target used (?pre ! j) = Some dj \<and>
            closest = Some (fst (?pre ! j)) \<and> md = Finite dj)"
      using Cons.prems(2)
    proof (elim disjE exE conjE)
      assume "closest = None" "md = PosInf"
        "\<forall>k < length pre. candidate_distance target used (pre ! k) = None"
      then show ?thesis using cd by (auto simp: nth_append less_Suc_eq)
    next
      fix j dj
      assume j: "closest_candidate target pre used j"
        "candidate_distance target used (pre ! j) = Some dj"
        "closest = Some (fst (pre ! j))" "md = Finite dj"
      have jl: "j < length pre" using j(1) by (simp add: closest_candidate_def)
      have "closest_candidate target ?pre used j"
        using closest_candidate_snoc[OF j(1,2)] cd by simp
      then show ?thesis using j jl by (auto simp: nth_append)
    qed
    from Cons.IH[OF nr inv] show ?thesis using True x by (simp only: app) simp
  next
    case False
    show ?thesis
    proof (cases "distance target e")
      case (Inl err)
      then have err: "err = OverflowError" by (rule distance_error)
      have "raises_overflow target used ((pre @ x # rest) ! length pre)"
        using False Inl err x by (simp add: raises_overflow_def)
      then have "\<exists>k < length (pre @ x # rest). raises_overflow target used ((pre @ x # rest) ! k)"
        by (intro exI[of _ "length pre"]) simp
      moreover have "closest_loop target used (x # rest) md closest = Inl OverflowError"
        using False Inl err x by simp
      ultimately show ?thesis by blast
    next
      case (Inr d)
      have dn: "d \<noteq> NegInf" using Inr distance_not_NegInf by metis
      have cd: "candidate_distance target used x = (case d of Finite v \<Rightarrow> Some v | _ \<Rightarrow> None)"
        using False Inr x by (simp add: candidate_distance_Inr)
      have nr: "\<forall>k < length ?pre. \<not> raises_overflow target used (?pre ! k)"
        using Cons.prems(1) Inr x
        by (auto simp: nth_append less_Suc_eq raises_overflow_def)
      show ?thesis
      proof (cases "float_less d md")
        case lt: True
        have "\<exists>v. d = Finite v \<and>
                (\<forall>k < length pre. \<forall>dk. candidate_distance target used (pre ! k) = Some dk \<longrightarrow> v < dk)"
          using Cons.prems(2)
        proof (elim disjE exE conjE)
          assume "md = PosInf" "\<forall>k < length pre. candidate_distance target used (pre ! k) = None"
          then show ?thesis using lt dn by (auto simp: float_less_PosInf)
        next
          fix j dj
          assume j: "closest_candidate target pre used j"
            "candidate_distance target used (pre ! j) = Some dj" "md = Finite dj"
          then obtain v where v: "d = Finite v" "v < dj"
            using lt dn by (auto simp: float_less_Finite)
          have "\<forall>k < length pre. \<forall>dk. candidate_distance target used (pre ! k) = Some dk \<longrightarrow> dj \<le> dk"
            using j(1,2) by (auto simp: closest_candidate_def)
          then show ?thesis using v by fastforce
        qed
        then obtain v where v: "d = Finite v"
          "\<forall>k < length pre. \<forall>dk. candidate_distance target used (pre ! k) = Some dk \<longrightarrow> v < dk"
          by blast
        have cdv: "candidate_distance target used x = Some v" using cd v(1) by simp
        have cc: "closest_candidate target ?pre used (length pre)"
          using closest_candidate_new[OF cdv v(2)] .
        have inv: "(Some f = None \<and> d = PosInf \<and>
            (\<forall>k < length ?pre. candidate_distance target used (?pre ! k) = None)) \<or>
         (\<exists>j dj. closest_candidate target ?pre used j \<and>
            candidate_distance target used (?pre ! j) = Some dj \<and>
            Some f = Some (fst (?pre ! j)) \<and> d = Finite dj)"
          using cc cdv v(1) x by (intro disjI2 exI[of _ "length pre"] exI[of _ v]) simp
        from Cons.IH[OF nr inv] show ?thesis using False Inr lt x by (simp only: app) simp
      next
        case ge: False
        have inv: "(closest = None \<and> md = PosInf \<and>
            (\<forall>k < length ?pre. candidate_distance target used (?pre ! k) = None)) \<or>
         (\<exists>j dj. closest_candidate target ?pre used j \<and>
            candidate_distance target used (?pre ! j) = Some dj \<and>
            closest = Some (fst (?pre ! j)) \<and> md = Finite dj)"
          using Cons.prems(2)
        proof (elim disjE exE conjE)
          assume a: "closest = None" "md = PosInf"
            "\<forall>k < length pre. candidate_distance target used (pre ! k) = None"
          then have "candidate_distance target used x = None"
            using ge dn cd by (cases d) (simp_all add: float_less_PosInf)
          then show ?thesis using a by (auto simp: nth_append less_Suc_eq)
        next
          fix j dj
          assume j: "closest_candidate target pre used j"
            "candidate_distance target used (pre ! j) = Some dj"
            "closest = Some (fst (pre ! j))" "md = Finite dj"
          have jl: "j < length pre" using j(1) by (simp add: closest_candidate_def)
          have "\<forall>dk. candidate_distance target used x = Some dk \<longrightarrow> dj \<le> dk"
            using ge j(4) cd by (cases d) auto
          then have "closest_candidate target ?pre used j"
            using closest_candidate_snoc[OF j(1,2)] by simp
          then show ?thesis using j jl by (auto simp: nth_append)
        qed
        from Cons.IH[OF nr inv] show ?thesis using False Inr ge x by (simp only: app) simp
      qed
    qed
  qed
qed

lemma find_closest_music_cases:
  "((\<exists>k < length lib. raises_overflow target used (lib ! k)) \<and>
       find_closest_music target lib used = Inl OverflowError) \<or>
   ((\<forall>k < length lib. \<not> raises_overflow target used (lib ! k)) \<and>
     ((find_closest_music target lib used = Inr None \<and>
        (\<forall>k < length lib. candidate_distance target used (lib ! k) = None)) \<or>
      (\<exists>j. closest_candidate target lib used j \<and>
         find_closest_music target lib used = Inr (Some (fst (lib ! j))))))"
  using closest_loop_inv[of "[]" target used None PosInf lib]
  by (simp add: find_closest_music_def)

lemma find_closest_music_Some:
  assumes "find_closest_music target lib used = Inr (Some m)"
  shows "m \<notin> used \<and> m \<in> fst ` set lib"
proof -
  from find_closest_music_cases[of lib target used] assms
  obtain j where j: "closest_candidate target lib used j" "m = fst (lib ! j)" by auto
  then have "j < length lib" "candidate_distance target used (lib ! j) \<noteq> None"
    by (auto simp: closest_candidate_def)
  then show ?thesis using j(2) by (auto simp: candidate_distance_def split: if_splits)
qed

lemma find_closest_music_returns:
  assumes "\<forall>item \<in> set L. \<exists>d. distance target (snd item) = Inr d"
  shows "\<exists>r. find_closest_music target L used = Inr r"
proof -
  have "\<not> raises_overflow target used (L ! k)" if "k < length L" for k
  proof -
    have "L ! k \<in> set L" using that by simp
    then obtain d where "distance target (snd (L ! k)) = Inr d" using assms by blast
    then show ?thesis by (simp add: raises_overflow_def)
  qed
  then have "\<not> (\<exists>k < length L. raises_overflow target used (L ! k))" by blast
  then show ?thesis using find_closest_music_cases[of L target used] by blast
qed


lemma distance_huge: "distance huge_target origin = Inl OverflowError"
proof -
  have s: "round_double (2 ^ 512) = Finite (2 ^ 512)"
    by (rule round_double_exact[where m = 1 and k = 512]) simp_all
  have q: "round_double (2 ^ 512 * 2 ^ 512) = PosInf"
    by (subst round_double_eval[where e = 1024]) (simp_all add: round_half_even_def)
  have "float_sub (Finite (2 ^ 512)) (Finite 0) = Finite (2 ^ 512)"
    using s by simp
  moreover have "float_pow2 (Finite (2 ^ 512)) = Inl OverflowError"
    using q by simp
  ultimately show ?thesis by (simp only: distance_def huge_target_def origin_def
        emotion_point.simps sum.case)
qed






section \<open>The doubling loop\<close>

lemma loop_music_returns:
  "music_segment \<noteq> [] \<Longrightarrow>
     \<exists>looped. loop_music music_segment duration = Some looped \<and> duration \<le> int (length looped) \<and> looped \<noteq> []"
proof (induction "nat (duration - int (length music_segment))" arbitrary: music_segment
        rule: less_induct)
  case less
  show ?case
  proof (cases "int (length music_segment) < duration")
    case True
    have pos: "0 < length music_segment" using less.prems by simp
    have "nat (duration - int (length (music_segment @ music_segment)))
            < nat (duration - int (length music_segment))"
      using True pos by simp
    moreover have "music_segment @ music_segment \<noteq> []" using less.prems by simp
    ultimately obtain looped where
      "loop_music (music_segment @ music_segment) duration = Some looped"
      "duration \<le> int (length looped)" "looped \<noteq> []"
      using less.hyps by blast
    then show ?thesis using True by (subst loop_music.simps) simp
  next
    case False
    then show ?thesis using less.prems by (subst loop_music.simps) simp
  qed
qed

lemma length_slice_to: "0 \<le> e \<Longrightarrow> e \<le> int (length seg) \<Longrightarrow> int (length (slice_to seg e)) = e"
  by (simp add: slice_to_def py_slice_def parse_position_def Let_def)

text \<open>
  Claim C8. For every buffer that is not empty and every duration \<open>d \<ge> 0\<close> the doubling
  loop returns, and the slice of its result to \<open>d\<close> has length exactly \<open>d\<close>.
\<close>

theorem loop_then_trim_length:
  assumes "music_segment \<noteq> []" and "0 \<le> duration"
  shows "\<exists>looped. loop_music music_segment duration = Some looped \<and>
           int (length (slice_to looped duration)) = duration"
proof -
  obtain looped where l: "loop_music music_segment duration = Some looped"
      "duration \<le> int (length looped)"
    using loop_music_returns[OF assms(1)] by blast
  then show ?thesis using assms(2) by (simp add: length_slice_to)
qed

theorem loop_then_trim_length_witness:
  "[1, 2, 3] \<noteq> ([] :: audio) \<and> (0::int) \<le> 10 \<and>
   loop_music [1, 2, 3] 10 = Some [1, 2, 3, 1, 2, 3, 1, 2, 3, 1, 2, 3] \<and>
   (\<exists>looped. loop_music [1, 2, 3] 10 = Some looped \<and> int (length (slice_to looped 10)) = 10)"
  using loop_then_trim_length[of "[1, 2, 3]" 10] by (simp add: loop_music.simps)

text \<open>On an empty buffer with a positive duration the loop does not return.\<close>

lemma loop_music_empty: "0 < duration \<Longrightarrow> loop_music [] duration = None"
proof -
  have "loop_music seg d = Some y \<Longrightarrow> \<not> (seg = [] \<and> 0 < d)" for seg d y
    by (erule loop_music.raw_induct[rotated, where P = "\<lambda>seg d y. \<not> (seg = [] \<and> 0 < d)"])
       (auto split: if_splits)
  then show "0 < duration \<Longrightarrow> loop_music [] duration = None"
    by (cases "loop_music [] duration") auto
qed

lemma loop_and_trim_length:
  assumes "clip \<noteq> []" and "0 \<le> d"
  shows "\<exists>seg. loop_and_trim clip d = Some seg \<and> int (length seg) = d"
proof -
  obtain looped where "loop_music clip d = Some looped" "d \<le> int (length looped)"
    using loop_music_returns[OF assms(1)] by blast
  then show ?thesis using assms(2) by (simp add: loop_and_trim_def length_slice_to)
qed

section \<open>The paragraph loop\<close>

lemmas step_defs = process_paragraph_def paragraph_duration_def int_to_float_def
  find_closest_music_def distance_def loop_and_trim_def loop_music.simps slice_to_def
  py_slice_def parse_position_def

lemma assigned_simps [simp]:
  "assigned [] = []"
  "assigned (None # xs) = assigned xs"
  "assigned (Some a # xs) = a # assigned xs"
  by (simp_all add: assigned_def List.map_filter_simps)

text \<open>What a step that returns has done.\<close>

lemma process_paragraph_Inr:
  assumes "process_paragraph L F T X i p st = Some (Inr st1)"
  shows "\<exists>d. paragraph_duration T X i p = Inr d \<and>
     ((skipped L F (used_music st) p \<and> st1 = st \<and>
        assignments L F T X i (p # ps) (used_music st)
          = None # assignments L F T X (Suc i) ps (used_music st)) \<or>
      (\<exists>m clip trimmed. find_closest_music (emotions p) L (used_music st) = Inr (Some m) \<and>
          F m = Some clip \<and> loop_and_trim clip d = Some trimmed \<and>
          st1 = \<lparr>used_music = insert m (used_music st),
                 music_segments = music_segments st @ [trimmed]\<rparr> \<and>
          \<not> skipped L F (used_music st) p \<and>
          assignments L F T X i (p # ps) (used_music st)
            = Some (m, d) # assignments L F T X (Suc i) ps (insert m (used_music st))))"
  using assms
  by (auto simp: process_paragraph_def skipped_def split: sum.splits option.splits)

lemma run_assignments:
  assumes "process_paragraphs L F T X i ps st = Some (Inr st')"
  shows "used_music st' = used_music st \<union> fst ` set (assigned (assignments L F T X i ps (used_music st))) \<and>
         length (assignments L F T X i ps (used_music st)) = length ps \<and>
         (\<exists>new. music_segments st' = music_segments st @ new \<and>
                list_all2 (prepared F) new (assigned (assignments L F T X i ps (used_music st))))"
  using assms
proof (induction ps arbitrary: i st)
  case Nil
  then show ?case by simp
next
  case (Cons p ps)
  from Cons.prems obtain st1 where
    step: "process_paragraph L F T X i p st = Some (Inr st1)" and
    rest: "process_paragraphs L F T X (Suc i) ps st1 = Some (Inr st')"
    by (auto split: option.splits sum.splits)
  note ih = Cons.IH[OF rest]
  from process_paragraph_Inr[OF step, of ps] obtain d where
    d: "paragraph_duration T X i p = Inr d" and
    alt: "(skipped L F (used_music st) p \<and> st1 = st \<and>
        assignments L F T X i (p # ps) (used_music st)
          = None # assignments L F T X (Suc i) ps (used_music st)) \<or>
      (\<exists>m clip trimmed. find_closest_music (emotions p) L (used_music st) = Inr (Some m) \<and>
          F m = Some clip \<and> loop_and_trim clip d = Some trimmed \<and>
          st1 = \<lparr>used_music = insert m (used_music st),
                 music_segments = music_segments st @ [trimmed]\<rparr> \<and>
          \<not> skipped L F (used_music st) p \<and>
          assignments L F T X i (p # ps) (used_music st)
            = Some (m, d) # assignments L F T X (Suc i) ps (insert m (used_music st)))"
    by blast
  from alt show ?case
  proof (elim disjE exE conjE)
    assume a: "st1 = st" "assignments L F T X i (p # ps) (used_music st)
          = None # assignments L F T X (Suc i) ps (used_music st)"
    show ?thesis using ih unfolding a by simp
  next
    fix m clip trimmed
    assume a: "F m = Some clip" "loop_and_trim clip d = Some trimmed"
      "st1 = \<lparr>used_music = insert m (used_music st),
                 music_segments = music_segments st @ [trimmed]\<rparr>"
      "assignments L F T X i (p # ps) (used_music st)
            = Some (m, d) # assignments L F T X (Suc i) ps (insert m (used_music st))"
    from ih obtain new where new: "music_segments st' = music_segments st1 @ new"
      "list_all2 (prepared F) new (assigned (assignments L F T X (Suc i) ps (used_music st1)))"
      by blast
    have p: "prepared F trimmed (m, d)" using a(1,2) by (simp add: prepared_def)
    have "music_segments st' = music_segments st @ (trimmed # new)"
      using new(1) a(3) by simp
    moreover have "list_all2 (prepared F) (trimmed # new)
        (assigned (assignments L F T X i (p # ps) (used_music st)))"
      using new(2) p a(3) unfolding a(4) by simp
    moreover have "used_music st' = used_music st \<union>
        fst ` set (assigned (assignments L F T X i (p # ps) (used_music st)))"
      using ih a(3) unfolding a(4) by simp
    moreover have "length (assignments L F T X i (p # ps) (used_music st)) = length (p # ps)"
      using ih a(3) unfolding a(4) by simp
    ultimately show ?thesis by blast
  qed
qed

lemma assignments_nth_skipped:
  assumes "process_paragraphs L F T X i ps st = Some (Inr st')" and "k < length ps"
  shows "(assignments L F T X i ps (used_music st) ! k = None) =
         skipped L F
           (used_music st \<union> fst ` set (assigned (take k (assignments L F T X i ps (used_music st)))))
           (ps ! k)"
  using assms
proof (induction ps arbitrary: i st k)
  case Nil
  then show ?case by simp
next
  case (Cons p ps)
  from Cons.prems(1) obtain st1 where
    step: "process_paragraph L F T X i p st = Some (Inr st1)" and
    rest: "process_paragraphs L F T X (Suc i) ps st1 = Some (Inr st')"
    by (auto split: option.splits sum.splits)
  from process_paragraph_Inr[OF step, of ps] obtain d where
    alt: "(skipped L F (used_music st) p \<and> st1 = st \<and>
        assignments L F T X i (p # ps) (used_music st)
          = None # assignments L F T X (Suc i) ps (used_music st)) \<or>
      (\<exists>m clip trimmed. find_closest_music (emotions p) L (used_music st) = Inr (Some m) \<and>
          F m = Some clip \<and> loop_and_trim clip d = Some trimmed \<and>
          st1 = \<lparr>used_music = insert m (used_music st),
                 music_segments = music_segments st @ [trimmed]\<rparr> \<and>
          \<not> skipped L F (used_music st) p \<and>
          assignments L F T X i (p # ps) (used_music st)
            = Some (m, d) # assignments L F T X (Suc i) ps (insert m (used_music st)))"
    by blast
  show ?case
  proof (cases k)
    case 0
    from alt show ?thesis unfolding 0 by (elim disjE exE conjE) simp_all
  next
    case (Suc k')
    then have k': "k' < length ps" using Cons.prems(2) by simp
    note ih = Cons.IH[OF rest k']
    from alt show ?thesis
    proof (elim disjE exE conjE)
      assume a: "st1 = st" "assignments L F T X i (p # ps) (used_music st)
          = None # assignments L F T X (Suc i) ps (used_music st)"
      show ?thesis using ih unfolding a Suc by simp
    next
      fix m clip trimmed
      assume a: "st1 = \<lparr>used_music = insert m (used_music st),
                 music_segments = music_segments st @ [trimmed]\<rparr>"
        "assignments L F T X i (p # ps) (used_music st)
            = Some (m, d) # assignments L F T X (Suc i) ps (insert m (used_music st))"
      show ?thesis using ih unfolding a(2) Suc by (simp add: a(1))
    qed
  qed
qed

lemma assignments_distinct:
  "distinct (map fst (assigned (assignments L F T X i ps used))) \<and>
   fst ` set (assigned (assignments L F T X i ps used)) \<inter> used = {}"
proof (induction ps arbitrary: i used)
  case Nil
  then show ?case by simp
next
  case (Cons p ps)
  show ?case
  proof (cases "paragraph_duration T X i p")
    case (Inl e)
    then show ?thesis by simp
  next
    case (Inr d)
    show ?thesis
    proof (cases "find_closest_music (emotions p) L used")
      case (Inl e)
      then show ?thesis using Inr by simp
    next
      case found: (Inr r)
      show ?thesis
      proof (cases r)
        case None
        then show ?thesis using Inr found Cons.IH[of "Suc i" used] by simp
      next
        case (Some m)
        then have m: "m \<notin> used" using found find_closest_music_Some by blast
        show ?thesis
        proof (cases "F m")
          case None
          then show ?thesis using Inr found Some Cons.IH[of "Suc i" used] by simp
        next
          case clip: (Some c)
          then show ?thesis
            using Inr found Some m Cons.IH[of "Suc i" "insert m used"] by auto
        qed
      qed
    qed
  qed
qed

lemma process_paragraph_skipped:
  assumes "skipped L F (used_music st) p"
  shows "process_paragraph L F T X i p st = Some (Inr st) \<or>
         (\<exists>e. paragraph_duration T X i p = Inl e \<and>
              process_paragraph L F T X i p st = Some (Inl e))"
  using assms
  by (auto simp: skipped_def process_paragraph_def split: sum.splits option.splits)

text \<open>
  Claim C5. A paragraph for which the matcher returns none, or whose matched id has no
  loaded audio, is skipped: processing it leaves the state as it was, so it appends no
  segment and adds no id to \<^verbatim>\<open>used_music\<close> (unless the duration of lines 61 to 68, which
  is computed before the match, has raised). The segments of a run are the prepared buffers
  of the assignments that are not skipped, in the order of the paragraphs, and
  \<^verbatim>\<open>used_music\<close> grows by exactly the ids of these assignments. The assignment list has
  one entry for each paragraph, and entry \<open>k\<close> is a skip exactly when paragraph \<open>k\<close>
  meets the skip condition in the set of ids used before it.
\<close>

theorem skipped_paragraphs_leave_no_trace:
  assumes "process_paragraphs L F T X i ps st = Some (Inr st')"
  shows "(\<exists>new. music_segments st' = music_segments st @ new \<and>
            list_all2 (prepared F) new (assigned (assignments L F T X i ps (used_music st)))) \<and>
         used_music st' = used_music st \<union>
            fst ` set (assigned (assignments L F T X i ps (used_music st))) \<and>
         length (assignments L F T X i ps (used_music st)) = length ps \<and>
         (\<forall>k < length ps.
            (assignments L F T X i ps (used_music st) ! k = None) =
            skipped L F
              (used_music st \<union>
                 fst ` set (assigned (take k (assignments L F T X i ps (used_music st)))))
              (ps ! k)) \<and>
         (\<forall>p s. skipped L F (used_music s) p \<longrightarrow>
            process_paragraph L F T X i p s = Some (Inr s) \<or>
            (\<exists>e. paragraph_duration T X i p = Inl e \<and>
                 process_paragraph L F T X i p s = Some (Inl e)))"
proof (intro conjI allI impI)
  show "\<exists>new. music_segments st' = music_segments st @ new \<and>
            list_all2 (prepared F) new (assigned (assignments L F T X i ps (used_music st)))"
    using run_assignments[OF assms] by (rule conjunct2[THEN conjunct2])
  show "used_music st' = used_music st \<union>
            fst ` set (assigned (assignments L F T X i ps (used_music st)))"
    using run_assignments[OF assms] by (rule conjunct1)
  show "length (assignments L F T X i ps (used_music st)) = length ps"
    using run_assignments[OF assms] by (rule conjunct2[THEN conjunct1])
next
  fix k assume "k < length ps"
  with assms show "(assignments L F T X i ps (used_music st) ! k = None) =
            skipped L F
              (used_music st \<union>
                 fst ` set (assigned (take k (assignments L F T X i ps (used_music st)))))
              (ps ! k)"
    by (rule assignments_nth_skipped)
next
  fix p and s :: planner_state
  assume "skipped L F (used_music s) p"
  then show "process_paragraph L F T X i p s = Some (Inr s) \<or>
            (\<exists>e. paragraph_duration T X i p = Inl e \<and>
                 process_paragraph L F T X i p s = Some (Inl e))"
    by (rule process_paragraph_skipped)
qed

theorem skipped_paragraphs_leave_no_trace_witness:
  "process_paragraphs two_clips only_y 10 2 0 two_paragraphs initial_state =
      Some (Inr \<lparr>used_music = {''y''}, music_segments = [[4, 5, 4, 5, 4, 5, 4]]\<rparr>) \<and>
   assignments two_clips only_y 10 2 0 two_paragraphs {} = [None, Some (''y'', 7)] \<and>
   skipped two_clips only_y {} (two_paragraphs ! 0) \<and>
   (\<exists>new. [[4, 5, 4, 5, 4, 5, 4]] = [] @ new \<and> list_all2 (prepared only_y) new [(''y'', 7)])"
proof -
  have run: "process_paragraphs two_clips only_y 10 2 0 two_paragraphs initial_state =
      Some (Inr \<lparr>used_music = {''y''}, music_segments = [[4, 5, 4, 5, 4, 5, 4]]\<rparr>)"
    by (simp add: two_paragraphs_def two_clips_def only_y_def initial_state_def step_defs)
  have a: "assignments two_clips only_y 10 2 0 two_paragraphs {} = [None, Some (''y'', 7)]"
    by (simp add: two_paragraphs_def two_clips_def only_y_def step_defs)
  have l: "length two_paragraphs = 2" by (simp add: two_paragraphs_def)
  note c5 = skipped_paragraphs_leave_no_trace[OF run]
  have seg: "\<exists>new. [[4, 5, 4, 5, 4, 5, 4]] = [] @ new \<and>
      list_all2 (prepared only_y) new [(''y'', 7)]"
    using c5[THEN conjunct1] by (simp add: a initial_state_def)
  have sk: "skipped two_clips only_y {} (two_paragraphs ! 0)"
    using c5[THEN conjunct2, THEN conjunct2, THEN conjunct2, THEN conjunct1, rule_format, of 0]
    by (simp add: a l initial_state_def)
  show ?thesis
    by (intro conjI) (rule run, rule a, rule sk, rule seg)
qed

text \<open>
  Claim C6, as stated, fails. The first paragraph of \<open>calm_twice\<close> matches clip \<open>x\<close>,
  whose file is missing; the paragraph is skipped and \<open>x\<close> is not added to
  \<^verbatim>\<open>used_music\<close>, and the second paragraph matches \<open>x\<close> again.
\<close>

theorem unavailable_clip_not_marked_counterexample:
  "find_closest_music (emotions (calm_twice ! 0)) two_clips (used_music initial_state) = Inr (Some ''x'') \<and>
   only_y ''x'' = None \<and>
   process_paragraph two_clips only_y 10 2 0 (calm_twice ! 0) initial_state = Some (Inr initial_state) \<and>
   ''x'' \<notin> used_music initial_state \<and>
   find_closest_music (emotions (calm_twice ! 1)) two_clips (used_music initial_state) = Inr (Some ''x'')"
  by (simp add: calm_twice_def two_clips_def only_y_def initial_state_def step_defs)

text \<open>
  Claim C6, amended. The availability check of line 72 comes before line 76 marks the id
  as used: a matched id without loaded audio is not added to \<^verbatim>\<open>used_music\<close>, the state
  is unchanged when the step returns (it raises only when the duration of lines 61 to 68
  has raised), and a later paragraph with the same emotions matches the same id again.
\<close>

theorem unavailable_clip_stays_unused:
  assumes "find_closest_music (emotions p) L (used_music st) = Inr (Some m)" and "F m = None"
  shows "(\<forall>d. paragraph_duration T X i p = Inr d \<longrightarrow>
            process_paragraph L F T X i p st = Some (Inr st)) \<and>
         (\<forall>e. paragraph_duration T X i p = Inl e \<longrightarrow>
            process_paragraph L F T X i p st = Some (Inl e)) \<and>
         m \<notin> used_music st \<and>
         (\<forall>st' q. process_paragraph L F T X i p st = Some (Inr st') \<and> emotions q = emotions p \<longrightarrow>
             st' = st \<and> find_closest_music (emotions q) L (used_music st') = Inr (Some m))"
proof -
  have a: "\<forall>d. paragraph_duration T X i p = Inr d \<longrightarrow>
            process_paragraph L F T X i p st = Some (Inr st)"
    using assms by (simp add: process_paragraph_def)
  have b: "\<forall>e. paragraph_duration T X i p = Inl e \<longrightarrow>
            process_paragraph L F T X i p st = Some (Inl e)"
    by (simp add: process_paragraph_def)
  have c: "m \<notin> used_music st" using find_closest_music_Some[OF assms(1)] by simp
  have d: "\<forall>st' q. process_paragraph L F T X i p st = Some (Inr st') \<and> emotions q = emotions p \<longrightarrow>
             st' = st \<and> find_closest_music (emotions q) L (used_music st') = Inr (Some m)"
    using assms by (auto simp: process_paragraph_def split: sum.splits)
  show ?thesis using a b c d by blast
qed

theorem unavailable_clip_stays_unused_witness:
  "find_closest_music (emotions (calm_twice ! 0)) two_clips (used_music initial_state) = Inr (Some ''x'') \<and>
   only_y ''x'' = None \<and>
   paragraph_duration 10 2 0 (calm_twice ! 0) = Inr 5 \<and>
   process_paragraph two_clips only_y 10 2 0 (calm_twice ! 0) initial_state = Some (Inr initial_state) \<and>
   ''x'' \<notin> used_music initial_state"
proof -
  have a: "find_closest_music (emotions (calm_twice ! 0)) two_clips (used_music initial_state) = Inr (Some ''x'')"
    by (simp add: calm_twice_def two_clips_def initial_state_def step_defs)
  have b: "only_y ''x'' = None" by (simp add: only_y_def)
  have d: "paragraph_duration 10 2 0 (calm_twice ! 0) = Inr 5"
    by (simp add: calm_twice_def step_defs)
  note c6 = unavailable_clip_stays_unused[of "calm_twice ! 0" two_clips initial_state "''x''" only_y 10 2 0, OF a b]
  show ?thesis
    by (intro conjI) (rule a, rule b, rule d, rule c6[THEN conjunct1, rule_format, OF d],
        rule c6[THEN conjunct2, THEN conjunct2, THEN conjunct1])
qed

lemma process_paragraphs_append:
  "process_paragraphs L F T X i (ps @ qs) st =
     (case process_paragraphs L F T X i ps st of
        None \<Rightarrow> None
      | Some (Inl e) \<Rightarrow> Some (Inl e)
      | Some (Inr s) \<Rightarrow> process_paragraphs L F T X (i + length ps) qs s)"
  by (induction ps arbitrary: i st) (auto split: option.splits sum.splits)

lemma used_music_grows:
  "process_paragraphs L F T X i ps st = Some (Inr st') \<Longrightarrow> used_music st \<subseteq> used_music st'"
  using run_assignments by blast

text \<open>
  Claim C9. In every run of the paragraph loop \<^verbatim>\<open>used_music\<close> only grows: the set after
  any prefix of the paragraphs contains the set at the start and is contained in the set at
  the end. The clip ids of the assignments are pairwise distinct and were not used before,
  and there is one segment per assignment, so no clip id belongs to two segments.
\<close>

theorem used_music_grows_ids_distinct:
  assumes "process_paragraphs L F T X i ps st = Some (Inr st')"
  shows "used_music st \<subseteq> used_music st' \<and>
         (\<forall>k \<le> length ps. \<exists>s. process_paragraphs L F T X i (take k ps) st = Some (Inr s) \<and>
             used_music st \<subseteq> used_music s \<and> used_music s \<subseteq> used_music st') \<and>
         distinct (map fst (assigned (assignments L F T X i ps (used_music st)))) \<and>
         fst ` set (assigned (assignments L F T X i ps (used_music st))) \<inter> used_music st = {} \<and>
         used_music st' = used_music st \<union>
            fst ` set (assigned (assignments L F T X i ps (used_music st))) \<and>
         length (music_segments st') =
            length (music_segments st) + length (assigned (assignments L F T X i ps (used_music st)))"
proof -
  note r = run_assignments[OF assms]
  from r obtain new where new: "music_segments st' = music_segments st @ new"
    "list_all2 (prepared F) new (assigned (assignments L F T X i ps (used_music st)))" by blast
  have len: "length (music_segments st') =
            length (music_segments st) + length (assigned (assignments L F T X i ps (used_music st)))"
    using new by (simp add: list_all2_lengthD)
  have pre: "\<forall>k \<le> length ps. \<exists>s. process_paragraphs L F T X i (take k ps) st = Some (Inr s) \<and>
             used_music st \<subseteq> used_music s \<and> used_music s \<subseteq> used_music st'"
  proof (intro allI impI)
    fix k assume "k \<le> length ps"
    have "process_paragraphs L F T X i (take k ps @ drop k ps) st = Some (Inr st')"
      using assms by simp
    then obtain s where s: "process_paragraphs L F T X i (take k ps) st = Some (Inr s)"
      "process_paragraphs L F T X (i + length (take k ps)) (drop k ps) s = Some (Inr st')"
      by (auto simp only: process_paragraphs_append split: option.splits sum.splits)
    then show "\<exists>s. process_paragraphs L F T X i (take k ps) st = Some (Inr s) \<and>
             used_music st \<subseteq> used_music s \<and> used_music s \<subseteq> used_music st'"
      using used_music_grows by blast
  qed
  have u: "used_music st \<subseteq> used_music st'" using assms by (rule used_music_grows)
  note d = assignments_distinct[of L F T X i ps "used_music st"]
  show ?thesis
    by (intro conjI) (rule u, rule pre, rule d[THEN conjunct1], rule d[THEN conjunct2],
        rule r[THEN conjunct1], rule len)
qed

theorem used_music_grows_ids_distinct_witness:
  "process_paragraphs two_clips two_files 10 2 0 two_paragraphs initial_state =
      Some (Inr \<lparr>used_music = {''y'', ''x''},
            music_segments = [[1, 2, 3, 1, 2], [4, 5, 4, 5, 4, 5, 4]]\<rparr>) \<and>
   assigned (assignments two_clips two_files 10 2 0 two_paragraphs {}) = [(''x'', 5), (''y'', 7)] \<and>
   distinct (map fst (assigned (assignments two_clips two_files 10 2 0 two_paragraphs {}))) \<and>
   used_music initial_state \<subseteq> {''y'', ''x''}"
proof -
  have run: "process_paragraphs two_clips two_files 10 2 0 two_paragraphs initial_state =
      Some (Inr \<lparr>used_music = {''y'', ''x''},
            music_segments = [[1, 2, 3, 1, 2], [4, 5, 4, 5, 4, 5, 4]]\<rparr>)"
    by (simp add: two_paragraphs_def two_clips_def two_files_def initial_state_def step_defs)
  have a: "assigned (assignments two_clips two_files 10 2 0 two_paragraphs {}) =
      [(''x'', 5), (''y'', 7)]"
    by (simp add: two_paragraphs_def two_clips_def two_files_def step_defs)
  have u: "used_music initial_state = {}" by (simp add: initial_state_def)
  note c9 = used_music_grows_ids_distinct[OF run]
  have d: "distinct (map fst (assigned (assignments two_clips two_files 10 2 0 two_paragraphs {})))"
    using c9[THEN conjunct2, THEN conjunct2, THEN conjunct1] by (simp only: u)
  have g: "used_music initial_state \<subseteq> {''y'', ''x''}"
    using c9[THEN conjunct1] by simp
  show ?thesis by (intro conjI) (rule run, rule a, rule d, rule g)
qed

section \<open>The planned duration\<close>

lemma py_int_truncates:
  assumes "py_int (Finite x) = Inr raw"
  shows "\<bar>real_of_int raw\<bar> \<le> \<bar>x\<bar> \<and> \<bar>x\<bar> < \<bar>real_of_int raw\<bar> + 1 \<and>
   (0 \<le> x \<longrightarrow> 0 \<le> raw) \<and> (x \<le> 0 \<longrightarrow> raw \<le> 0)"
proof (cases "0 \<le> x")
  case True
  then have "raw = \<lfloor>x\<rfloor>" using assms by simp
  moreover have "0 \<le> \<lfloor>x\<rfloor>" using True by simp
  moreover have "real_of_int \<lfloor>x\<rfloor> \<le> x" "x < real_of_int \<lfloor>x\<rfloor> + 1" by linarith+
  ultimately show ?thesis using True by (auto simp: abs_if)
next
  case False
  then have p: "raw = \<lceil>x\<rceil>" using assms by simp
  have c0: "\<lceil>x\<rceil> \<le> 0" using False by (simp add: ceiling_le_iff)
  have c1: "x \<le> real_of_int \<lceil>x\<rceil>" "real_of_int \<lceil>x\<rceil> - 1 < x" by linarith+
  have r0: "real_of_int \<lceil>x\<rceil> \<le> 0" using c0 by simp
  have a1: "\<bar>real_of_int \<lceil>x\<rceil>\<bar> = - real_of_int \<lceil>x\<rceil>" using r0 by simp
  have a2: "\<bar>x\<bar> = - x" using False by simp
  have "\<bar>real_of_int \<lceil>x\<rceil>\<bar> \<le> \<bar>x\<bar>" using c1 a1 a2 by linarith
  moreover have "\<bar>x\<bar> < \<bar>real_of_int \<lceil>x\<rceil>\<bar> + 1" using c1 a1 a2 by linarith
  ultimately show ?thesis using False c0 p by simp
qed

lemma int_to_float_cases:
  "int_to_float T = Inl OverflowError \<or> (\<exists>tf. int_to_float T = Inr (Finite tf))"
  by (simp add: int_to_float_def round_double_def)

lemma int_to_float_small: "\<bar>T\<bar> < 2 ^ 53 \<Longrightarrow> int_to_float T = Inr (Finite (real_of_int T))"
  by (simp add: int_to_float_def round_double_of_int)

lemma round_double_seven_tenths:
  "round_double (3152519739159347 / 2 ^ 52 * 60000) = Finite 42000"
  by (subst round_double_eval[where e = 15]) (simp_all add: round_half_even_def)

lemma float_mul_seven_tenths:
  "float_mul (float_sub (proportion_end seven_tenths) (proportion_start seven_tenths))
     (Finite 60000) = Finite 42000"
proof -
  have a: "round_double (3152519739159347 / 2 ^ 52) = Finite (3152519739159347 / 2 ^ 52)"
    using round_double_dyadic[of 3152519739159347 52] by simp
  have "float_sub (proportion_end seven_tenths) (proportion_start seven_tenths)
          = Finite (3152519739159347 / 2 ^ 52)"
    using a by (simp add: seven_tenths_def)
  then show ?thesis using round_double_seven_tenths by simp
qed

lemma paragraph_duration_seven_tenths:
  "paragraph_duration 60000 5000 0 seven_tenths = Inr 42000"
proof -
  have a: "round_double (3152519739159347 / 2 ^ 52) = Finite (3152519739159347 / 2 ^ 52)"
    using round_double_dyadic[of 3152519739159347 52] by simp
  have "float_sub (proportion_end seven_tenths) (proportion_start seven_tenths)
          = Finite (3152519739159347 / 2 ^ 52)"
    using a by (simp add: seven_tenths_def)
  moreover have "float_mul (Finite (3152519739159347 / 2 ^ 52)) (Finite 60000) = Finite 42000"
    using round_double_seven_tenths by simp
  ultimately show ?thesis by (simp add: paragraph_duration_def int_to_float_def)
qed

lemma float_sub_fifth_to_three_fifths:
  "float_sub (Finite (5404319552844595 / 2 ^ 53)) (Finite (3602879701896397 / 2 ^ 54))
     = Finite (7205759403792793 / 2 ^ 54)"
proof -
  have "(5404319552844595 / 2 ^ 53 - 3602879701896397 / 2 ^ 54 :: real) = 7205759403792793 / 2 ^ 54"
    by simp
  moreover have "round_double (7205759403792793 / 2 ^ 54) = Finite (7205759403792793 / 2 ^ 54)"
    using round_double_dyadic[of 7205759403792793 54] by simp
  ultimately show ?thesis by (simp only: float_sub.simps)
qed

lemma float_mul_fifth_to_three_fifths:
  "float_mul (Finite (7205759403792793 / 2 ^ 54)) (Finite 60000)
     = Finite (6597069766655999 / 2 ^ 38)"
proof -
  have "round_double (7205759403792793 / 2 ^ 54 * 60000) = Finite (6597069766655999 / 2 ^ 38)"
    by (subst round_double_eval[where e = 14]) (simp_all add: round_half_even_def)
  then show ?thesis by (simp only: float_mul.simps)
qed

lemma paragraph_duration_fifth_to_three_fifths:
  "paragraph_duration 60000 5000 0 fifth_to_three_fifths = Inr 23999"
proof -
  have "int_to_float 60000 = Inr (Finite 60000)" by (simp add: int_to_float_def)
  moreover have "py_int (Finite (6597069766655999 / 2 ^ 38)) = Inr 23999" by simp
  ultimately show ?thesis
    using float_sub_fifth_to_three_fifths float_mul_fifth_to_three_fifths
    by (simp only: paragraph_duration_def fifth_to_three_fifths_def paragraph_entry.simps
          sum.case) simp
qed

lemma float_mul_bound:
  "float_mul a b = Finite x \<Longrightarrow> \<bar>x\<bar> < 2 powi 1024"
  by (cases a; cases b) (auto simp: inf_times_def dest: round_double_bound split: if_splits)

lemma planned_duration_prints:
  assumes "\<bar>x\<bar> < 2 powi 1024" "py_int (Finite x) = Inr raw" "\<bar>X\<bar> < 2 ^ 1022"
  shows "\<not> seconds_raises (if 0 < i then raw + X else raw)"
proof -
  have r: "\<bar>real_of_int raw\<bar> \<le> \<bar>x\<bar>" using py_int_truncates[OF assms(2)] by simp
  have X: "\<bar>real_of_int X\<bar> < 2 ^ 1022"
    using assms(3) by (metis of_int_abs of_int_less_numeral_power_cancel_iff)
  have p: "(2::real) powi 1024 = 2 ^ 1024" by simp
  let ?d = "if 0 < i then raw + X else raw"
  have "\<bar>real_of_int ?d\<bar> < 2 ^ 1024 + 2 ^ 1022"
    using r X assms(1) unfolding p by (auto simp: abs_if split: if_splits)
  then have "\<bar>real_of_int ?d / 1000\<bar> < 2 powi 1023" by simp
  from round_double_finite[OF this] show ?thesis by (auto simp: seconds_raises_def)
qed

text \<open>
  Claim C2, as stated, fails: line 61 computes the raw duration with \<^verbatim>\<open>int\<close>, which
  truncates, and not with \<^verbatim>\<open>round\<close>. A paragraph over three quarters of a total
  duration of 5 gets the duration 3: the product is the float 3.75, which rounds to 4. And
  a paragraph from 0.2 to 0.6 of a total duration of 60000 gets the duration 23999: the
  product of the floats is just below 24000, to which it rounds.
\<close>

theorem paragraph_duration_rounds_counterexample:
  "paragraph_duration 5 2 0 three_quarters = Inr 3 \<and>
   float_mul (float_sub (proportion_end three_quarters) (proportion_start three_quarters))
     (Finite 5) = Finite (15/4) \<and>
   round_half_even (15/4) = 4 \<and>
   paragraph_duration 60000 5000 0 fifth_to_three_fifths = Inr 23999 \<and>
   float_mul (float_sub (proportion_end fifth_to_three_fifths)
                (proportion_start fifth_to_three_fifths))
     (Finite 60000) = Finite (6597069766655999 / 2 ^ 38) \<and>
   round_half_even (6597069766655999 / 2 ^ 38) = 24000"
proof -
  have a: "paragraph_duration 5 2 0 three_quarters = Inr 3"
    by (simp add: paragraph_duration_def int_to_float_def three_quarters_def)
  have b: "float_mul (float_sub (proportion_end three_quarters) (proportion_start three_quarters))
     (Finite 5) = Finite (15/4)"
    by (simp add: three_quarters_def)
  have c: "round_half_even (15/4) = 4" by (simp add: round_half_even_def)
  have e: "float_mul (float_sub (proportion_end fifth_to_three_fifths)
                (proportion_start fifth_to_three_fifths))
     (Finite 60000) = Finite (6597069766655999 / 2 ^ 38)"
    using float_sub_fifth_to_three_fifths float_mul_fifth_to_three_fifths
    by (simp only: fifth_to_three_fifths_def paragraph_entry.simps)
  have f: "round_half_even (6597069766655999 / 2 ^ 38) = 24000"
    by (simp add: round_half_even_def)
  show ?thesis
    by (intro conjI) (rule a, rule b, rule c, rule paragraph_duration_fifth_to_three_fifths,
        rule e, rule f)
qed

text \<open>
  Claim C2, amended. When a planned duration is computed, \<^verbatim>\<open>total_duration\<close> converts to
  a float, the float product \<^verbatim>\<open>(end_proportion - start_proportion) * total_duration\<close> is
  a finite number \<open>x\<close>, and the raw duration is \<open>x\<close> truncated towards zero: the integer
  of the same sign whose absolute value is the largest not above the absolute value of
  \<open>x\<close>. The planned duration is the raw duration for paragraph 0 and the raw duration
  plus the crossfade for every later paragraph. It is computed whenever the product is
  finite and the crossfade is below \<open>2 ^ 1022\<close> in absolute value; a total duration below
  \<open>2 ^ 53\<close> in absolute value converts to itself. The planned duration is the length of
  the segment that the loop body appends when the paragraph gets a clip that is not empty.
  For the paragraphs \<open>[0, 0.5)\<close> and \<open>[0.5, 1)\<close> with a total of 60000 and a crossfade
  of 5000 the planned durations are 30000 and 35000.
\<close>

theorem paragraph_duration_truncates:
  "(\<forall>d. paragraph_duration T X i p = Inr d \<longrightarrow>
      (\<exists>tf x raw. int_to_float T = Inr (Finite tf) \<and>
         float_mul (float_sub (proportion_end p) (proportion_start p)) (Finite tf) = Finite x \<and>
         d = (if i = 0 then raw else raw + X) \<and>
         \<bar>real_of_int raw\<bar> \<le> \<bar>x\<bar> \<and> \<bar>x\<bar> < \<bar>real_of_int raw\<bar> + 1 \<and>
         (0 \<le> x \<longrightarrow> 0 \<le> raw) \<and> (x \<le> 0 \<longrightarrow> raw \<le> 0))) \<and>
   (\<forall>tf x. int_to_float T = Inr (Finite tf) \<and>
       float_mul (float_sub (proportion_end p) (proportion_start p)) (Finite tf) = Finite x \<and>
       \<bar>X\<bar> < 2 ^ 1022 \<longrightarrow>
      (\<exists>d. paragraph_duration T X i p = Inr d)) \<and>
   (\<bar>T\<bar> < 2 ^ 53 \<longrightarrow> int_to_float T = Inr (Finite (real_of_int T))) \<and>
   (\<forall>m clip d. paragraph_duration T X i p = Inr d \<and>
        find_closest_music (emotions p) L (used_music st) = Inr (Some m) \<and> F m = Some clip \<and>
        clip \<noteq> [] \<and> 0 \<le> d \<longrightarrow>
      (\<exists>seg. process_paragraph L F T X i p st =
                Some (Inr \<lparr>used_music = insert m (used_music st),
                           music_segments = music_segments st @ [seg]\<rparr>) \<and>
             int (length seg) = d)) \<and>
   paragraph_duration 60000 5000 0 (two_paragraphs ! 0) = Inr 30000 \<and>
   paragraph_duration 60000 5000 1 (two_paragraphs ! 1) = Inr 35000"
proof -
  let ?prod = "\<lambda>tf. float_mul (float_sub (proportion_end p) (proportion_start p)) tf"
  have a: "\<forall>d. paragraph_duration T X i p = Inr d \<longrightarrow>
      (\<exists>tf x raw. int_to_float T = Inr (Finite tf) \<and> ?prod (Finite tf) = Finite x \<and>
         d = (if i = 0 then raw else raw + X) \<and>
         \<bar>real_of_int raw\<bar> \<le> \<bar>x\<bar> \<and> \<bar>x\<bar> < \<bar>real_of_int raw\<bar> + 1 \<and>
         (0 \<le> x \<longrightarrow> 0 \<le> raw) \<and> (x \<le> 0 \<longrightarrow> raw \<le> 0))"
  proof (intro allI impI)
    fix d assume d: "paragraph_duration T X i p = Inr d"
    then obtain tf where tf: "int_to_float T = Inr (Finite tf)"
      using int_to_float_cases[of T] by (auto simp: paragraph_duration_def)
    from d tf obtain raw where raw: "py_int (?prod (Finite tf)) = Inr raw"
        "d = (if i = 0 then raw else raw + X)"
      by (auto simp: paragraph_duration_def Let_def split: sum.splits if_splits)
    then obtain x where x: "?prod (Finite tf) = Finite x"
      by (cases "?prod (Finite tf)") simp_all
    show "\<exists>tf x raw. int_to_float T = Inr (Finite tf) \<and> ?prod (Finite tf) = Finite x \<and>
         d = (if i = 0 then raw else raw + X) \<and>
         \<bar>real_of_int raw\<bar> \<le> \<bar>x\<bar> \<and> \<bar>x\<bar> < \<bar>real_of_int raw\<bar> + 1 \<and>
         (0 \<le> x \<longrightarrow> 0 \<le> raw) \<and> (x \<le> 0 \<longrightarrow> raw \<le> 0)"
    proof -
      have "py_int (Finite x) = Inr raw" using raw(1) by (simp only: x)
      from py_int_truncates[OF this] tf x raw(2) show ?thesis by blast
    qed
  qed
  have b: "\<forall>tf x. int_to_float T = Inr (Finite tf) \<and> ?prod (Finite tf) = Finite x \<and>
       \<bar>X\<bar> < 2 ^ 1022 \<longrightarrow>
      (\<exists>d. paragraph_duration T X i p = Inr d)"
  proof (intro allI impI)
    fix tf x
    assume h: "int_to_float T = Inr (Finite tf) \<and> ?prod (Finite tf) = Finite x \<and> \<bar>X\<bar> < 2 ^ 1022"
    obtain raw where raw: "py_int (Finite x) = Inr raw" by simp
    have bound: "\<bar>x\<bar> < 2 powi 1024" using h float_mul_bound by blast
    have "\<not> seconds_raises (if 0 < i then raw + X else raw)"
      using planned_duration_prints[OF bound raw] h by blast
    then show "\<exists>d. paragraph_duration T X i p = Inr d"
      using h raw by (simp add: paragraph_duration_def Let_def)
  qed
  have c: "\<bar>T\<bar> < 2 ^ 53 \<longrightarrow> int_to_float T = Inr (Finite (real_of_int T))"
    using int_to_float_small by blast
  have d: "\<forall>m clip d. paragraph_duration T X i p = Inr d \<and>
        find_closest_music (emotions p) L (used_music st) = Inr (Some m) \<and> F m = Some clip \<and>
        clip \<noteq> [] \<and> 0 \<le> d \<longrightarrow>
      (\<exists>seg. process_paragraph L F T X i p st =
                Some (Inr \<lparr>used_music = insert m (used_music st),
                           music_segments = music_segments st @ [seg]\<rparr>) \<and>
             int (length seg) = d)"
  proof (intro allI impI)
    fix m clip d
    assume h: "paragraph_duration T X i p = Inr d \<and>
        find_closest_music (emotions p) L (used_music st) = Inr (Some m) \<and> F m = Some clip \<and>
        clip \<noteq> [] \<and> 0 \<le> d"
    then obtain seg where seg: "loop_and_trim clip d = Some seg" "int (length seg) = d"
      using loop_and_trim_length by blast
    have "process_paragraph L F T X i p st =
          Some (Inr \<lparr>used_music = insert m (used_music st),
                     music_segments = music_segments st @ [seg]\<rparr>)"
      using h seg(1) by (simp add: process_paragraph_def)
    then show "\<exists>seg. process_paragraph L F T X i p st =
                Some (Inr \<lparr>used_music = insert m (used_music st),
                           music_segments = music_segments st @ [seg]\<rparr>) \<and>
             int (length seg) = d"
      using seg(2) by blast
  qed
  have e: "paragraph_duration 60000 5000 0 (two_paragraphs ! 0) = Inr 30000"
    by (simp add: paragraph_duration_def int_to_float_def two_paragraphs_def)
  have f: "paragraph_duration 60000 5000 1 (two_paragraphs ! 1) = Inr 35000"
    by (simp add: paragraph_duration_def int_to_float_def two_paragraphs_def)
  show ?thesis
    by (intro conjI) (rule a, rule b, rule c, rule d, rule e, rule f)
qed

theorem paragraph_duration_truncates_witness:
  "paragraph_duration 60000 5000 0 seven_tenths = Inr 42000 \<and>
   paragraph_duration 60000 5000 0 fifth_to_three_fifths = Inr 23999 \<and>
   paragraph_duration 5 2 1 three_quarters = Inr 5 \<and>
   (\<exists>tf x raw. int_to_float 60000 = Inr (Finite tf) \<and>
      float_mul (float_sub (proportion_end seven_tenths) (proportion_start seven_tenths))
        (Finite tf) = Finite x \<and>
      (42000::int) = raw \<and> \<bar>real_of_int raw\<bar> \<le> \<bar>x\<bar> \<and> \<bar>x\<bar> < \<bar>real_of_int raw\<bar> + 1) \<and>
   int_to_float 60000 = Inr (Finite 60000) \<and>
   float_mul (float_sub (proportion_end seven_tenths) (proportion_start seven_tenths))
     (Finite 60000) = Finite 42000 \<and>
   (\<exists>d. paragraph_duration 60000 5000 0 seven_tenths = Inr d) \<and>
   find_closest_music (emotions three_quarters) two_clips (used_music initial_state) = Inr (Some ''x'') \<and>
   (\<exists>seg. process_paragraph two_clips two_files 5 2 1 three_quarters initial_state =
             Some (Inr \<lparr>used_music = insert ''x'' (used_music initial_state),
                        music_segments = music_segments initial_state @ [seg]\<rparr>) \<and>
          int (length seg) = 5)"
proof -
  note s = paragraph_duration_seven_tenths
  note t = paragraph_duration_fifth_to_three_fifths
  note m = float_mul_seven_tenths
  have d: "paragraph_duration 5 2 1 three_quarters = Inr 5"
    by (simp add: paragraph_duration_def int_to_float_def three_quarters_def)
  have f: "find_closest_music (emotions three_quarters) two_clips (used_music initial_state) = Inr (Some ''x'')"
    by (simp add: three_quarters_def two_clips_def initial_state_def find_closest_music_def distance_def)
  have c: "two_files ''x'' = Some [1, 2, 3]" by (simp add: two_files_def)
  note c2 = paragraph_duration_truncates[of 60000 5000 0 seven_tenths two_clips initial_state two_files]
  note c2' = paragraph_duration_truncates[of 5 2 1 three_quarters two_clips initial_state two_files]
  have r: "\<exists>tf x raw. int_to_float 60000 = Inr (Finite tf) \<and>
      float_mul (float_sub (proportion_end seven_tenths) (proportion_start seven_tenths))
        (Finite tf) = Finite x \<and>
      (42000::int) = raw \<and> \<bar>real_of_int raw\<bar> \<le> \<bar>x\<bar> \<and> \<bar>x\<bar> < \<bar>real_of_int raw\<bar> + 1"
    using c2[THEN conjunct1, rule_format, OF s] by auto
  have i: "int_to_float 60000 = Inr (Finite 60000)"
    using c2[THEN conjunct2, THEN conjunct2, THEN conjunct1] by simp
  have e: "\<exists>d. paragraph_duration 60000 5000 0 seven_tenths = Inr d"
    using c2[THEN conjunct2, THEN conjunct1, rule_format, of 60000 42000] i m by simp
  have g: "\<exists>seg. process_paragraph two_clips two_files 5 2 1 three_quarters initial_state =
             Some (Inr \<lparr>used_music = insert ''x'' (used_music initial_state),
                        music_segments = music_segments initial_state @ [seg]\<rparr>) \<and>
          int (length seg) = 5"
    using c2'[THEN conjunct2, THEN conjunct2, THEN conjunct2, THEN conjunct1, rule_format,
              of 5 "''x''" "[1, 2, 3]"] f c d
    by simp
  show ?thesis
    by (intro conjI) (rule s, rule t, rule d, rule r, rule i, rule m, rule e, rule f, rule g)
qed

section \<open>The fades\<close>

text \<open>
  What the two fades return: a fade-in over a positive duration, and a fade-out over a
  positive duration that is not longer than the buffer, scale every millisecond of the
  buffer by its gain and keep the length.
\<close>

lemma take_1_drop: "i < length seg \<Longrightarrow> take (Suc 0) (drop i seg) = [seg ! i]"
  by (simp add: take_Suc_conv_app_nth)

lemma py_slice_frame:
  "py_slice seg (int i) (int i + 1) = (if i < length seg then [seg ! i] else [])"
  by (auto simp: py_slice_def Let_def take_1_drop min_def)

lemma item_ms_nat: "item_ms seg (int i) = (if i < length seg then [seg ! i] else [])"
  using py_slice_frame[of seg i] by (simp add: item_ms_def parse_position_def)

lemma get_frame_nat: "get_frame seg (int i) = (if i < length seg then [seg ! i] else [])"
  using py_slice_frame[of seg i] by (simp add: get_frame_def)

lemma chunk_nat:
  "(if b then item_ms seg (int i) else get_frame seg (int i))
     = (if i < length seg then [seg ! i] else [])"
  by (simp add: item_ms_nat get_frame_nat)

lemma concat_chunks:
  "concat (map (\<lambda>i. scaled (g i) (if i < length seg then [seg ! i] else [])) [0..<n])
     = map (\<lambda>i. seg ! i * g i) [0..<min n (length seg)]"
proof (induction n)
  case 0
  then show ?case by simp
next
  case (Suc n)
  show ?case
  proof (cases "n < length seg")
    case True
    then have "min (Suc n) (length seg) = Suc n" "min n (length seg) = n" by simp_all
    then show ?thesis using Suc True by (simp add: scaled_def)
  next
    case False
    then have "min (Suc n) (length seg) = length seg" "min n (length seg) = length seg" by simp_all
    then show ?thesis using Suc False by (simp add: scaled_def)
  qed
qed

lemma slice_to_0 [simp]: "slice_to seg 0 = []"
  by (simp add: slice_to_def py_slice_def parse_position_def)

lemma slice_to_take: "0 \<le> e \<Longrightarrow> slice_to seg e = take (nat e) seg"
  by (auto simp: slice_to_def py_slice_def parse_position_def Let_def min_def)

lemma map_nth_upt_drop: "map (\<lambda>i. seg ! i) [k..<length seg] = drop k seg"
  by (metis drop_map map_nth drop_upt add_0)

lemma segment_fade_in_content:
  assumes "0 < d"
  shows "segment_fade_in seg d =
           Inr (map (\<lambda>i. seg ! i * fade_in_gain d i) [0..<length seg])"
proof -
  let ?g = "\<lambda>i. 1 / 1000000 + (1 - 1 / 1000000) / real_of_int d * real i"
  let ?n = "min (nat d) (length seg)"
  have chunk: "(\<lambda>i. scaled (?g i) (if 100 < d then item_ms seg (int i) else get_frame seg (int i)))
                 = (\<lambda>i. scaled (?g i) (if i < length seg then [seg ! i] else []))"
    by (simp only: chunk_nat)
  have ramp: "concat (map (\<lambda>i. scaled (?g i)
                 (if 100 < d then item_ms seg (int i) else get_frame seg (int i))) [0..<nat d])
        = map (\<lambda>i. seg ! i * ?g i) [0..<?n]"
    unfolding chunk by (rule concat_chunks)
  have r1: "map (\<lambda>i. seg ! i * ?g i) [0..<?n] = map (\<lambda>i. seg ! i * fade_in_gain d i) [0..<?n]"
    using assms by (auto simp: fade_in_gain_def)
  have r2: "slice_from seg (nat d) = map (\<lambda>i. seg ! i * fade_in_gain d i) [?n..<length seg]"
  proof (cases "nat d \<le> length seg")
    case True
    then have n: "?n = nat d" by simp
    have "map (\<lambda>i. seg ! i * fade_in_gain d i) [nat d..<length seg]
            = map (\<lambda>i. seg ! i) [nat d..<length seg]"
      using assms by (auto simp: fade_in_gain_def)
    then show ?thesis unfolding n by (simp add: slice_from_def map_nth_upt_drop)
  next
    case False
    then show ?thesis by (simp add: slice_from_def)
  qed
  have split: "[0..<length seg] = [0..<?n] @ [?n..<length seg]"
    by (metis le_add_diff_inverse min.cobounded2 upt_add_eq_append zero_le)
  have "segment_fade_in seg d =
          Inr (map (\<lambda>i. seg ! i * fade_in_gain d i) [0..<?n]
               @ map (\<lambda>i. seg ! i * fade_in_gain d i) [?n..<length seg])"
    using assms ramp r1 r2 by (simp add: segment_fade_in_def scaled_def)
  then show ?thesis by (metis map_append split)
qed

lemma concat_singletons: "concat (map (\<lambda>i. [h i]) xs) = map h xs"
  by (induction xs) simp_all

lemma segment_fade_out_content:
  assumes "0 < d" and "d \<le> int (length seg)"
  shows "segment_fade_out seg d =
           Inr (map (\<lambda>i. seg ! i * fade_out_gain (length seg) d i) [0..<length seg])"
proof -
  let ?L = "length seg"
  let ?k = "nat (int ?L - d)"
  let ?g = "\<lambda>i. 1 + (1 / 1000000 - 1) / real_of_int d * real i"
  have kd: "?k + nat d = ?L" "?k \<le> ?L" using assms by simp_all
  have idx: "int ?L - d + int i = int (?k + i)" for i using assms by simp
  have chunk: "\<And>i. i \<in> set [0..<nat d] \<Longrightarrow>
       scaled (?g i) (if 100 < d then item_ms seg (int ?L - d + int i)
                       else get_frame seg (int ?L - d + int i))
        = [seg ! (?k + i) * ?g i]"
  proof -
    fix i assume "i \<in> set [0..<nat d]"
    then have "?k + i < ?L" using kd by simp
    then show "scaled (?g i) (if 100 < d then item_ms seg (int ?L - d + int i)
                       else get_frame seg (int ?L - d + int i))
        = [seg ! (?k + i) * ?g i]"
      by (simp only: idx chunk_nat) (simp add: scaled_def)
  qed
  have ramp: "concat (map (\<lambda>i. scaled (?g i)
                 (if 100 < d then item_ms seg (int ?L - d + int i)
                  else get_frame seg (int ?L - d + int i))) [0..<nat d])
        = map (\<lambda>i. seg ! (?k + i) * ?g i) [0..<nat d]"
  proof -
    have "map (\<lambda>i. scaled (?g i)
                 (if 100 < d then item_ms seg (int ?L - d + int i)
                  else get_frame seg (int ?L - d + int i))) [0..<nat d]
          = map (\<lambda>i. [seg ! (?k + i) * ?g i]) [0..<nat d]"
      using chunk by (intro map_cong) auto
    then show ?thesis by (simp only: concat_singletons)
  qed
  have shift: "map (\<lambda>i. seg ! (?k + i) * ?g i) [0..<nat d]
        = map (\<lambda>j. seg ! j * ?g (j - ?k)) [?k..<?L]"
  proof -
    have "[?k..<?L] = map (\<lambda>i. i + ?k) [0..<nat d]"
      using kd by (metis add.commute map_add_upt)
    then show ?thesis by (simp add: o_def add.commute)
  qed
  have r1: "map (\<lambda>j. seg ! j * ?g (j - ?k)) [?k..<?L]
        = map (\<lambda>i. seg ! i * fade_out_gain ?L d i) [?k..<?L]"
    using assms by (auto simp: fade_out_gain_def)
  have r0: "slice_to seg (int ?L - d) = map (\<lambda>i. seg ! i * fade_out_gain ?L d i) [0..<?k]"
  proof -
    have "slice_to seg (int ?L - d) = take ?k seg" using assms by (simp add: slice_to_take)
    also have "\<dots> = map (\<lambda>i. seg ! i) [0..<?k]"
      using kd(2) by (metis map_nth take_map take_upt add_0)
    also have "\<dots> = map (\<lambda>i. seg ! i * fade_out_gain ?L d i) [0..<?k]"
      using assms by (auto simp: fade_out_gain_def)
    finally show ?thesis .
  qed
  have split: "[0..<?L] = [0..<?k] @ [?k..<?L]"
    using kd(2) by (metis le_add_diff_inverse upt_add_eq_append zero_le)
  have "segment_fade_out seg d =
          Inr (map (\<lambda>i. seg ! i * fade_out_gain ?L d i) [0..<?k]
               @ map (\<lambda>i. seg ! i * fade_out_gain ?L d i) [?k..<?L])"
    using assms ramp shift r1 r0 by (simp add: segment_fade_out_def scaled_def slice_from_def)
  then show ?thesis by (metis map_append split)
qed

lemma segment_fade_in_length:
  "0 < d \<Longrightarrow> \<exists>r. segment_fade_in seg d = Inr r \<and> length r = length seg"
  by (simp add: segment_fade_in_content)

lemma segment_fade_out_length:
  "0 < d \<Longrightarrow> d \<le> int (length seg) \<Longrightarrow> \<exists>r. segment_fade_out seg d = Inr r \<and> length r = length seg"
  by (simp add: segment_fade_out_content)

lemma segment_fade_out_returns: "0 < d \<Longrightarrow> \<exists>r. segment_fade_out seg d = Inr r"
  by (simp add: segment_fade_out_def)

text \<open>
  A fade-out that is longer than the buffer, but not longer than twice the buffer, returns
  a buffer that is longer than the one it was given: the part before the fade is counted
  from the end of the buffer, and every step of the ramp but one adds a millisecond.
\<close>

lemma fade_out_chunk_length:
  assumes "- int (length seg) \<le> j" "j < int (length seg)"
  shows "length (if b then item_ms seg j else get_frame seg j) = (if j = - 1 then 0 else 1)"
  using assms
  by (auto simp: item_ms_def get_frame_def py_slice_def parse_position_def Let_def)

lemma sum_list_all_but_one:
  "sum_list (map (\<lambda>i. if i = k then 0 else (1::nat)) [0..<n]) = (if k < n then n - 1 else n)"
  by (induction n) auto

lemma segment_fade_out_long:
  assumes "int (length seg) < d" "d \<le> 2 * int (length seg)"
  shows "\<exists>r. segment_fade_out seg d = Inr r \<and> int (length r) = 2 * int (length seg) - 1"
proof -
  let ?L = "length seg"
  let ?g = "\<lambda>i. 1 + (1 / 1000000 - 1) / real_of_int d * real i"
  let ?chunk = "\<lambda>i. scaled (?g i) (if 100 < d then item_ms seg (int ?L - d + int i)
                                   else get_frame seg (int ?L - d + int i))"
  define k where "k = nat (d - int ?L) - 1"
  have d: "0 < d" using assms by linarith
  have k: "k < nat d" using assms by (simp add: k_def)
  have len: "\<And>i. i \<in> set [0..<nat d] \<Longrightarrow> length (?chunk i) = (if i = k then 0 else 1)"
  proof -
    fix i assume "i \<in> set [0..<nat d]"
    then have i: "int i < d" by simp
    have r: "- int ?L \<le> int ?L - d + int i" "int ?L - d + int i < int ?L"
      using assms i by simp_all
    have "(int ?L - d + int i = - 1) = (i = k)" using assms i by (auto simp: k_def)
    then show "length (?chunk i) = (if i = k then 0 else 1)"
      using fade_out_chunk_length[OF r, of "100 < d"] by (simp add: scaled_def)
  qed
  have "length (concat (map ?chunk [0..<nat d]))
          = sum_list (map (\<lambda>i. length (?chunk i)) [0..<nat d])"
    by (simp add: length_concat o_def)
  also have "\<dots> = sum_list (map (\<lambda>i. if i = k then 0 else (1::nat)) [0..<nat d])"
    using len by (intro arg_cong[where f = sum_list] map_cong) auto
  also have "\<dots> = nat d - 1" using k by (simp add: sum_list_all_but_one)
  finally have ramp: "length (concat (map ?chunk [0..<nat d])) = nat d - 1" .
  have before: "length (slice_to seg (int ?L - d)) = nat (2 * int ?L - d)"
    using assms by (auto simp: slice_to_def py_slice_def parse_position_def Let_def)
  have "segment_fade_out seg d =
          Inr (slice_to seg (int ?L - d) @ concat (map ?chunk [0..<nat d])
               @ scaled (1 / 1000000) (slice_from seg ?L))"
    using d by (simp add: segment_fade_out_def)
  moreover have "int (length (slice_to seg (int ?L - d) @ concat (map ?chunk [0..<nat d])
               @ scaled (1 / 1000000) (slice_from seg ?L))) = 2 * int ?L - 1"
    using ramp before assms d by (simp add: slice_from_def scaled_def)
  ultimately show ?thesis by blast
qed

section \<open>The assembly\<close>

lemma length_silent [simp]: "length (silent d) = nat d"
  by (simp add: silent_def)

lemma length_crossfade_zip [simp]: "length (crossfade_zip a b) = min (length a) (length b)"
  by (simp add: crossfade_zip_def)

lemma append_crossfade_length:
  assumes "append_crossfade a b x = Inr r" "0 \<le> x"
  shows "int (length r) = int (length a) + int (length b) - x"
  using assms by (auto simp: append_crossfade_def split: if_splits)

lemma append_crossfade_returns:
  assumes "0 \<le> x" "x \<le> int (length a)" "x \<le> int (length b)"
  shows "\<exists>r. append_crossfade a b x = Inr r \<and> int (length r) = int (length a) + int (length b) - x"
  using assms by (auto simp: append_crossfade_def)

lemma join_segments_length:
  assumes "join_segments acc segs x = Inr r" "0 \<le> x"
  shows "int (length r) = int (length acc) + (\<Sum>s\<leftarrow>segs. int (length s) - x)"
  using assms
proof (induction segs arbitrary: acc)
  case Nil
  then show ?case by simp
next
  case (Cons s segs)
  from Cons.prems(1) obtain j where j: "append_crossfade acc s x = Inr j"
      "join_segments j segs x = Inr r"
    by (auto split: sum.splits if_splits)
  from append_crossfade_length[OF j(1) Cons.prems(2)] Cons.IH[OF j(2) Cons.prems(2)]
  show ?case by simp
qed

lemma join_segments_returns:
  assumes "0 \<le> x" "x \<le> int (length acc)" "\<forall>s \<in> set segs. x \<le> int (length s)"
    and "\<not> seconds_raises x"
  shows "\<exists>r. join_segments acc segs x = Inr r \<and> int (length acc) \<le> int (length r)"
  using assms(1-3)
proof (induction segs arbitrary: acc)
  case Nil
  then show ?case by simp
next
  case (Cons s segs)
  from Cons.prems obtain j where j: "append_crossfade acc s x = Inr j"
      "int (length j) = int (length acc) + int (length s) - x"
    using append_crossfade_returns[of x acc s] by auto
  then have "x \<le> int (length j)" using Cons.prems by simp
  with Cons.IH[of j] Cons.prems obtain r where "join_segments j segs x = Inr r"
      "int (length j) \<le> int (length r)" by auto
  then show ?case using j Cons.prems assms(4) by simp
qed

lemma adjust_length_cases:
  assumes "0 \<le> T"
  shows "adjust_length joined T =
           (if T < int (length joined) then take (nat T) joined
            else joined @ replicate (nat (T - int (length joined))) 0)"
  using assms by (simp add: adjust_length_def slice_to_take silent_def)

lemma length_adjust_length: "0 \<le> T \<Longrightarrow> int (length (adjust_length joined T)) = T"
  by (simp add: adjust_length_cases)

lemma assemble_joined:
  assumes "0 < Fd" "Fd \<le> T" "join_segments first rest X = Inr joined"
    and "\<not> seconds_raises T"
  shows "assemble (first # rest) T X Fd =
           Inr (map (\<lambda>i. adjust_length joined T ! i * fade_in_gain Fd i * fade_out_gain (nat T) Fd i)
                  [0..<nat T])"
proof -
  let ?a = "adjust_length joined T"
  let ?f = "map (\<lambda>i. ?a ! i * fade_in_gain Fd i) [0..<length ?a]"
  have la: "length ?a = nat T" using assms(1,2) length_adjust_length[of T joined] by simp
  have fi: "segment_fade_in ?a Fd = Inr ?f" using assms(1) by (rule segment_fade_in_content)
  have lf: "length ?f = nat T" using la by simp
  have "segment_fade_out ?f Fd = Inr (map (\<lambda>i. ?f ! i * fade_out_gain (length ?f) Fd i) [0..<length ?f])"
    using assms(1,2) lf by (intro segment_fade_out_content) simp_all
  also have "map (\<lambda>i. ?f ! i * fade_out_gain (length ?f) Fd i) [0..<length ?f]
      = map (\<lambda>i. ?a ! i * fade_in_gain Fd i * fade_out_gain (nat T) Fd i) [0..<nat T]"
    unfolding lf using la by (intro map_cong) simp_all
  finally show ?thesis using assms(3,4) fi by (simp add: assemble_def)
qed

lemma assemble_length:
  assumes "0 < Fd" "Fd \<le> T" "assemble segs T X Fd = Inr buf"
  shows "int (length buf) = T"
proof (cases segs)
  case Nil
  then show ?thesis using assms by (auto simp: assemble_def)
next
  case (Cons first rest)
  with assms(3) obtain joined where f: "join_segments first rest X = Inr joined"
    and p: "\<not> seconds_raises T"
    by (auto simp: assemble_def split: sum.splits if_splits)
  from assemble_joined[OF assms(1,2) f p] assms(3) Cons assms(1,2) show ?thesis by auto
qed

lemma assemble_returns:
  assumes "0 < Fd" "Fd \<le> T" "\<not> seconds_raises T"
    and "length segs \<le> 1 \<or>
         (0 \<le> X \<and> \<not> seconds_raises X \<and> (\<forall>s \<in> set segs. X \<le> int (length s)))"
  shows "\<exists>buf. assemble segs T X Fd = Inr buf"
proof (cases segs)
  case Nil
  then show ?thesis by (simp add: assemble_def)
next
  case (Cons first rest)
  have "\<exists>r. join_segments first rest X = Inr r"
  proof (cases "rest = []")
    case True
    then show ?thesis by simp
  next
    case False
    with assms(4) Cons have "0 \<le> X" "X \<le> int (length first)"
        "\<forall>s \<in> set rest. X \<le> int (length s)" "\<not> seconds_raises X"
      by (cases rest; auto)+
    from join_segments_returns[OF this] show ?thesis by blast
  qed
  then show ?thesis using Cons assemble_joined[OF assms(1,2) _ assms(3)] by blast
qed

lemma assemble_returns_buffer:
  assumes "0 < Fd" "\<not> seconds_raises T" "0 \<le> X" "\<not> seconds_raises X"
    and "\<forall>s \<in> set segs. X \<le> int (length s)"
  shows "\<exists>buf. assemble segs T X Fd = Inr buf"
proof (cases segs)
  case Nil
  then show ?thesis by (simp add: assemble_def)
next
  case (Cons first rest)
  have "X \<le> int (length first)" "\<forall>s \<in> set rest. X \<le> int (length s)"
    using assms(5) Cons by simp_all
  from join_segments_returns[OF assms(3) this assms(4)]
  obtain joined where j: "join_segments first rest X = Inr joined" by blast
  obtain faded where f: "segment_fade_in (adjust_length joined T) Fd = Inr faded"
    using segment_fade_in_length[OF assms(1)] by blast
  obtain buf where "segment_fade_out faded Fd = Inr buf"
    using segment_fade_out_returns[OF assms(1)] by blast
  then show ?thesis using Cons j f assms(2) by (simp add: assemble_def)
qed

lemma assemble_fade_errors:
  assumes "join_segments first rest X = Inr joined" "\<not> seconds_raises T"
  shows "assemble (first # rest) T X 0 = Inl TypeError"
    and "Fd < 0 \<Longrightarrow> assemble (first # rest) T X Fd = Inl InvalidDuration"
  using assms by (simp_all add: assemble_def segment_fade_in_def)

text \<open>The paragraph loop on the example inputs.\<close>

lemma run_two_files:
  "process_paragraphs two_clips (load_music_files two_files two_clips Map.empty) 10 2 0
     two_paragraphs \<lparr>used_music = {}, music_segments = []\<rparr>
   = Some (Inr \<lparr>used_music = {''y'', ''x''},
                 music_segments = [[1, 2, 3, 1, 2], [4, 5, 4, 5, 4, 5, 4]]\<rparr>)"
  by (simp add: two_paragraphs_def two_clips_def two_files_def step_defs)

lemma run_only_y:
  "process_paragraphs two_clips (load_music_files only_y two_clips Map.empty) 10 2 0
     two_paragraphs \<lparr>used_music = {}, music_segments = []\<rparr>
   = Some (Inr \<lparr>used_music = {''y''}, music_segments = [[4, 5, 4, 5, 4, 5, 4]]\<rparr>)"
  by (simp add: two_paragraphs_def two_clips_def only_y_def step_defs)

lemma run_short_first:
  "process_paragraphs two_clips (load_music_files only_y two_clips Map.empty) 10 2 0
     short_first \<lparr>used_music = {}, music_segments = []\<rparr>
   = Some (Inr \<lparr>used_music = {''y''},
                 music_segments = [[4, 5, 4, 5, 4, 5, 4, 5, 4, 5, 4]]\<rparr>)"
  by (simp add: short_first_def two_clips_def only_y_def step_defs)

lemma join_two:
  "join_segments [1, 2, 3, 1, 2] [[4, 5, 4, 5, 4, 5, 4]] 2 = Inr [1, 2, 3, 1, 7/2, 4, 5, 4, 5, 4]"
  by (simp add: append_crossfade_def crossfade_zip_def)

lemma loop_and_trim_whole: "loop_and_trim (replicate 1000 0) 2000 = Some (replicate 2000 0)"
  by (simp add: loop_and_trim_def loop_music.simps slice_to_take flip: replicate_add)

lemma run_whole_text:
  "process_paragraphs one_clip (load_music_files long_files one_clip Map.empty) 2000 5000 0
     whole_text \<lparr>used_music = {}, music_segments = []\<rparr>
   = Some (Inr \<lparr>used_music = {''x''}, music_segments = [replicate 2000 0]\<rparr>)"
proof -
  have "paragraph_duration 2000 5000 0 (whole_text ! 0) = Inr 2000"
    by (simp add: whole_text_def paragraph_duration_def int_to_float_def)
  then show ?thesis
    using loop_and_trim_whole
    by (simp add: whole_text_def one_clip_def long_files_def process_paragraph_def
          find_closest_music_def distance_def)
qed

text \<open>
  Claim C3, as stated, fails when the fade is longer than the total duration: the
  fade-out starts at the position \<^verbatim>\<open>len - duration\<close>, which is negative then and which the
  slices of the buffer count from its end. With a total duration of 2000 and the default
  crossfade and fade (5000 and 3000), one paragraph over the whole text and a clip of one
  second, the buffer that \<^verbatim>\<open>create_music_sequence\<close> returns is 3999 ms long.
\<close>

theorem assembled_length_long_fade_counterexample:
  "map_option (map_sum id length)
     (create_music_sequence whole_text one_clip long_files 2000 5000 3000) = Some (Inr 3999)"
proof -
  obtain faded where f: "segment_fade_in (replicate 2000 0) 3000 = Inr faded"
      "length faded = 2000"
    using segment_fade_in_length[of 3000 "replicate 2000 0"] by auto
  obtain r where r: "segment_fade_out faded 3000 = Inr r" "int (length r) = 3999"
    using segment_fade_out_long[of faded 3000] f(2) by auto
  have "assemble [replicate 2000 0] 2000 5000 3000 = Inr r"
    using f(1) r(1) by (simp add: assemble_def adjust_length_def)
  then show ?thesis using run_whole_text r(2) by (simp add: create_music_sequence_def)
qed

text \<open>
  Claim C3, amended. Let the fade duration be positive and at most the total duration, the
  total duration below \<open>2 ^ 1023\<close> and the crossfade not negative. With no segment the
  assembly returns the silent buffer of the total duration. When the joins return the
  buffer \<open>joined\<close>, the assembly returns the buffer that holds, at every millisecond
  below the total duration, the sample of the adjusted buffer times the gains of the
  fade-in and of the fade-out; the adjusted buffer is the first \<^verbatim>\<open>total_duration\<close>
  milliseconds of \<open>joined\<close> when \<open>joined\<close> is longer, and \<open>joined\<close> followed by silence
  when it is shorter. An exception of a join leaves the assembly. The joined buffer has the
  length of the first segment plus, for every later segment, its length minus the
  crossfade. So every buffer that the assembly or \<^verbatim>\<open>create_music_sequence\<close> returns has
  length exactly \<^verbatim>\<open>total_duration\<close>, and the assembly returns one for at most one segment
  and for segments that are each at least as long as the crossfade.
\<close>

theorem assembled_length:
  assumes "0 < Fd" and "Fd \<le> T" and "T < 2 ^ 1023" and "0 \<le> X"
  shows "assemble [] T X Fd = Inr (silent T) \<and>
         (\<forall>first rest joined. join_segments first rest X = Inr joined \<longrightarrow>
            assemble (first # rest) T X Fd =
              Inr (map (\<lambda>i. adjust_length joined T ! i * fade_in_gain Fd i
                              * fade_out_gain (nat T) Fd i) [0..<nat T])) \<and>
         (\<forall>first rest e. join_segments first rest X = Inl e \<longrightarrow>
            assemble (first # rest) T X Fd = Inl e) \<and>
         (\<forall>joined. adjust_length joined T =
            (if T < int (length joined) then take (nat T) joined
             else joined @ replicate (nat (T - int (length joined))) 0)) \<and>
         (\<forall>first rest joined. join_segments first rest X = Inr joined \<longrightarrow>
            int (length joined) = int (length first) + (\<Sum>s\<leftarrow>rest. int (length s) - X)) \<and>
         (\<forall>buf. assemble segs T X Fd = Inr buf \<longrightarrow> int (length buf) = T) \<and>
         (\<forall>buf. create_music_sequence ps lib fs T X Fd = Some (Inr buf) \<longrightarrow>
            int (length buf) = T) \<and>
         (length segs \<le> 1 \<or> (X < 2 ^ 1023 \<and> (\<forall>s \<in> set segs. X \<le> int (length s))) \<longrightarrow>
            (\<exists>buf. assemble segs T X Fd = Inr buf \<and> int (length buf) = T))"
proof -
  have T: "0 \<le> T" using assms(1,2) by simp
  have pT: "\<not> seconds_raises T" using assms(1,2,3) by simp
  have a: "assemble [] T X Fd = Inr (silent T)" by (simp add: assemble_def)
  have b: "\<forall>first rest joined. join_segments first rest X = Inr joined \<longrightarrow>
            assemble (first # rest) T X Fd =
              Inr (map (\<lambda>i. adjust_length joined T ! i * fade_in_gain Fd i
                              * fade_out_gain (nat T) Fd i) [0..<nat T])"
    using assemble_joined[OF assms(1,2) _ pT] by blast
  have c: "\<forall>first rest e. join_segments first rest X = Inl e \<longrightarrow>
            assemble (first # rest) T X Fd = Inl e"
    by (simp add: assemble_def)
  have d: "\<forall>joined. adjust_length joined T =
            (if T < int (length joined) then take (nat T) joined
             else joined @ replicate (nat (T - int (length joined))) 0)"
    using adjust_length_cases[OF T] by blast
  have e: "\<forall>first rest joined. join_segments first rest X = Inr joined \<longrightarrow>
            int (length joined) = int (length first) + (\<Sum>s\<leftarrow>rest. int (length s) - X)"
    using join_segments_length assms(4) by blast
  have f: "\<forall>buf. assemble segs T X Fd = Inr buf \<longrightarrow> int (length buf) = T"
    using assemble_length[OF assms(1,2)] by blast
  have g: "\<forall>buf. create_music_sequence ps lib fs T X Fd = Some (Inr buf) \<longrightarrow>
            int (length buf) = T"
  proof (intro allI impI)
    fix buf assume "create_music_sequence ps lib fs T X Fd = Some (Inr buf)"
    then obtain st :: planner_state where
      "assemble (music_segments st) T X Fd = Inr buf"
      by (auto simp: create_music_sequence_def split: option.splits sum.splits)
    then show "int (length buf) = T" using assms(1,2) by (intro assemble_length)
  qed
  have h: "length segs \<le> 1 \<or> (X < 2 ^ 1023 \<and> (\<forall>s \<in> set segs. X \<le> int (length s))) \<longrightarrow>
            (\<exists>buf. assemble segs T X Fd = Inr buf \<and> int (length buf) = T)"
  proof
    assume h: "length segs \<le> 1 \<or> (X < 2 ^ 1023 \<and> (\<forall>s \<in> set segs. X \<le> int (length s)))"
    then have "length segs \<le> 1 \<or>
         (0 \<le> X \<and> \<not> seconds_raises X \<and> (\<forall>s \<in> set segs. X \<le> int (length s)))"
      using assms(4) by auto
    from assemble_returns[OF assms(1,2) pT this] assemble_length[OF assms(1,2)]
    show "\<exists>buf. assemble segs T X Fd = Inr buf \<and> int (length buf) = T" by blast
  qed
  show ?thesis
    by (intro conjI) (rule a, rule b, rule c, rule d, rule e, rule f, rule g, rule h)
qed

theorem assembled_length_witness:
  "(0::int) < 2 \<and> (2::int) \<le> 10 \<and> (10::int) < 2 ^ 1023 \<and> (0::int) \<le> 2 \<and>
   adjust_length [4, 5, 4, 5, 4, 5, 4] 10 = [4, 5, 4, 5, 4, 5, 4, 0, 0, 0] \<and>
   create_music_sequence two_paragraphs two_clips only_y 10 2 2 =
     Some (Inr [1 / 250000, 1000001 / 400000, 4, 5, 4, 5, 4, 0, 0, 0]) \<and>
   adjust_length [4, 5, 4, 5, 4, 5, 4, 5, 4, 5, 4] 10 = [4, 5, 4, 5, 4, 5, 4, 5, 4, 5] \<and>
   create_music_sequence short_first two_clips only_y 10 2 2 =
     Some (Inr [1 / 250000, 1000001 / 400000, 4, 5, 4, 5, 4, 5, 4, 1000001 / 400000]) \<and>
   join_segments [1, 2, 3, 1, 2] [[4, 5, 4, 5, 4, 5, 4]] 2 = Inr [1, 2, 3, 1, 7/2, 4, 5, 4, 5, 4] \<and>
   create_music_sequence two_paragraphs two_clips two_files 10 2 2 =
     Some (Inr [1 / 1000000, 1000001 / 1000000, 3, 1, 7/2, 4, 5, 4, 5, 1000001 / 500000]) \<and>
   create_music_sequence two_paragraphs two_clips Map.empty 10 2 2 = Some (Inr (replicate 10 0)) \<and>
   join_segments [1] [[4, 5]] 2 = Inl ValueError \<and>
   assemble [[1], [4, 5]] 10 2 2 = Inl ValueError \<and>
   (\<exists>buf. assemble [[1, 2, 3, 1, 2], [4, 5, 4, 5, 4, 5, 4]] 10 2 2 = Inr buf \<and>
          int (length buf) = 10)"
proof -
  have h1: "(0::int) < 2" and h2: "(2::int) \<le> 10" and h3: "(10::int) < 2 ^ 1023"
    and h4: "(0::int) \<le> 2" by simp_all
  note c3 = assembled_length[OF h1 h2 h3 h4]
  note joined = c3[THEN conjunct2, THEN conjunct1, rule_format]
  have j1: "join_segments [4, 5, 4, 5, 4, 5, 4] [] 2 = Inr [4, 5, 4, 5, 4, 5, 4]" by simp
  have j2: "join_segments [4, 5, 4, 5, 4, 5, 4, 5, 4, 5, 4] [] 2
      = Inr [4, 5, 4, 5, 4, 5, 4, 5, 4, 5, 4]" by simp
  have a1: "adjust_length [4, 5, 4, 5, 4, 5, 4] 10 = [4, 5, 4, 5, 4, 5, 4, 0, 0, 0]"
    using c3[THEN conjunct2, THEN conjunct2, THEN conjunct2, THEN conjunct1, rule_format,
             of "[4, 5, 4, 5, 4, 5, 4]"]
    by (simp add: numeral_eq_Suc)
  have a2: "adjust_length [4, 5, 4, 5, 4, 5, 4, 5, 4, 5, 4] 10 = [4, 5, 4, 5, 4, 5, 4, 5, 4, 5]"
    using c3[THEN conjunct2, THEN conjunct2, THEN conjunct2, THEN conjunct1, rule_format,
             of "[4, 5, 4, 5, 4, 5, 4, 5, 4, 5, 4]"]
    by (simp add: numeral_eq_Suc)
  have r1: "create_music_sequence two_paragraphs two_clips only_y 10 2 2 =
     Some (Inr [1 / 250000, 1000001 / 400000, 4, 5, 4, 5, 4, 0, 0, 0])"
    using run_only_y joined[OF j1]
    by (simp add: create_music_sequence_def a1 fade_in_gain_def fade_out_gain_def upt_conv_Cons)
  have r2: "create_music_sequence short_first two_clips only_y 10 2 2 =
     Some (Inr [1 / 250000, 1000001 / 400000, 4, 5, 4, 5, 4, 5, 4, 1000001 / 400000])"
    using run_short_first joined[OF j2]
    by (simp add: create_music_sequence_def a2 fade_in_gain_def fade_out_gain_def upt_conv_Cons)
  have a3: "adjust_length [1, 2, 3, 1, 7/2, 4, 5, 4, 5, 4] 10 = [1, 2, 3, 1, 7/2, 4, 5, 4, 5, 4]"
    by (simp add: adjust_length_def)
  have r3: "create_music_sequence two_paragraphs two_clips two_files 10 2 2 =
     Some (Inr [1 / 1000000, 1000001 / 1000000, 3, 1, 7/2, 4, 5, 4, 5, 1000001 / 500000])"
    using run_two_files joined[OF join_two]
    by (simp add: create_music_sequence_def a3 fade_in_gain_def fade_out_gain_def upt_conv_Cons)
  have r4: "create_music_sequence two_paragraphs two_clips Map.empty 10 2 2
      = Some (Inr (replicate 10 0))"
    using c3[THEN conjunct1]
    by (simp add: create_music_sequence_def two_paragraphs_def two_clips_def step_defs silent_def)
  have j3: "join_segments [1] [[4, 5]] 2 = Inl ValueError"
    by (simp add: append_crossfade_def)
  have r5: "assemble [[1], [4, 5]] 10 2 2 = Inl ValueError"
    using c3[THEN conjunct2, THEN conjunct2, THEN conjunct1, rule_format, OF j3] .
  have r6: "\<exists>buf. assemble [[1, 2, 3, 1, 2], [4, 5, 4, 5, 4, 5, 4]] 10 2 2 = Inr buf \<and>
          int (length buf) = 10"
    using c3[where segs = "[[1, 2, 3, 1, 2], [4, 5, 4, 5, 4, 5, 4]]", THEN conjunct2,
             THEN conjunct2, THEN conjunct2, THEN conjunct2, THEN conjunct2, THEN conjunct2,
             THEN conjunct2]
    by simp
  show ?thesis
    by (intro conjI) (rule h1, rule h2, rule h3, rule h4, rule a1, rule r1, rule a2, rule r2,
        rule join_two, rule r3, rule r4, rule j3, rule r5, rule r6)
qed

section \<open>Error conditions\<close>

lemma load_music_files_lookup:
  "load_music_files fs L m k =
     (if k \<in> fst ` set L then (case fs k of None \<Rightarrow> m k | Some seg \<Rightarrow> Some seg) else m k)"
proof (induction L arbitrary: m k)
  case Nil
  then show ?case by simp
next
  case (Cons x L)
  obtain f e where x: "x = (f, e)" by (cases x)
  show ?case unfolding x by (auto simp: Cons.IH split: option.splits)
qed

lemma process_paragraph_returns:
  assumes clips: "\<forall>m clip. F m = Some clip \<longrightarrow> clip \<noteq> []"
    and dist: "\<forall>item \<in> set L. \<exists>d. distance (emotions p) (snd item) = Inr d"
    and d: "paragraph_duration T X i p = Inr d" "0 \<le> d" "X \<le> d"
    and inv: "\<forall>s \<in> set (music_segments st). X \<le> int (length s)"
  shows "\<exists>st'. process_paragraph L F T X i p st = Some (Inr st') \<and>
               (\<forall>s \<in> set (music_segments st'). X \<le> int (length s))"
proof -
  obtain r where r: "find_closest_music (emotions p) L (used_music st) = Inr r"
    using find_closest_music_returns[OF dist] by blast
  show ?thesis
  proof (cases r)
    case None
    then show ?thesis using r d(1) inv by (simp add: process_paragraph_def)
  next
    case (Some m)
    show ?thesis
    proof (cases "F m")
      case None
      then show ?thesis using r Some d(1) inv by (simp add: process_paragraph_def)
    next
      case clip: (Some clip)
      then have "clip \<noteq> []" using clips by blast
      then obtain seg where seg: "loop_and_trim clip d = Some seg" "int (length seg) = d"
        using loop_and_trim_length d(2) by blast
      then show ?thesis
        using r Some clip d(1,3) inv by (simp add: process_paragraph_def)
    qed
  qed
qed

lemma process_paragraphs_returns:
  assumes clips: "\<forall>m clip. F m = Some clip \<longrightarrow> clip \<noteq> []"
    and X: "0 \<le> X"
    and dist: "\<forall>p \<in> set ps. \<forall>item \<in> set L. \<exists>d. distance (emotions p) (snd item) = Inr d"
    and dur: "\<forall>(j, p) \<in> set (enumerate i ps). \<exists>d. paragraph_duration T X j p = Inr d \<and> X \<le> d"
    and inv: "\<forall>s \<in> set (music_segments st). X \<le> int (length s)"
  shows "\<exists>st'. process_paragraphs L F T X i ps st = Some (Inr st') \<and>
               (\<forall>s \<in> set (music_segments st'). X \<le> int (length s))"
  using dist dur inv
proof (induction ps arbitrary: i st)
  case Nil
  then show ?case by simp
next
  case (Cons p ps)
  from Cons.prems(2) obtain d where d: "paragraph_duration T X i p = Inr d" "X \<le> d"
    by auto
  have d0: "0 \<le> d" using d(2) X by simp
  have dp: "\<forall>item \<in> set L. \<exists>d. distance (emotions p) (snd item) = Inr d"
    using Cons.prems(1) by simp
  obtain st1 where st1: "process_paragraph L F T X i p st = Some (Inr st1)"
      "\<forall>s \<in> set (music_segments st1). X \<le> int (length s)"
    using process_paragraph_returns[OF clips dp d(1) d0 d(2) Cons.prems(3)] by blast
  have "\<exists>st'. process_paragraphs L F T X (Suc i) ps st1 = Some (Inr st') \<and>
               (\<forall>s \<in> set (music_segments st'). X \<le> int (length s))"
    using Cons.IH[of "Suc i" st1] Cons.prems(1,2) st1(2) by simp
  then show ?case using st1(1) by simp
qed

lemma process_paragraphs_all_skipped:
  assumes "\<forall>(j, p) \<in> set (enumerate i ps). \<exists>d. paragraph_duration T X j p = Inr d"
    and "\<forall>p \<in> set ps. skipped L F (used_music st) p"
  shows "process_paragraphs L F T X i ps st = Some (Inr st)"
  using assms
proof (induction ps arbitrary: i)
  case Nil
  then show ?case by simp
next
  case (Cons p ps)
  from Cons.prems(1) obtain d where d: "paragraph_duration T X i p = Inr d" by auto
  have "skipped L F (used_music st) p" using Cons.prems(2) by simp
  then have "process_paragraph L F T X i p st = Some (Inr st)"
    using process_paragraph_skipped[of L F st p T X i] d by auto
  moreover have "process_paragraphs L F T X (Suc i) ps st = Some (Inr st)"
    using Cons.IH[of "Suc i"] Cons.prems by simp
  ultimately show ?case by simp
qed

lemma short_first_duration_0: "paragraph_duration 60000 5000 0 (short_first ! 0) = Inr 3750"
  by (simp add: short_first_def step_defs)

lemma short_first_duration_1: "paragraph_duration 60000 5000 1 (short_first ! 1) = Inr 61250"
  by (simp add: short_first_def step_defs)

lemma long_clip_trim_0: "loop_and_trim (replicate 1000 0) 3750 = Some (replicate 3750 0)"
  by (simp add: loop_and_trim_def loop_music.simps slice_to_take flip: replicate_add)

lemma long_clip_trim_1: "loop_and_trim (replicate 1000 0) 61250 = Some (replicate 61250 0)"
  by (simp add: loop_and_trim_def loop_music.simps slice_to_take flip: replicate_add)

lemma run_long_files:
  "process_paragraphs two_clips (load_music_files long_files two_clips Map.empty) 60000 5000 0
     short_first \<lparr>used_music = {}, music_segments = []\<rparr>
   = Some (Inr \<lparr>used_music = {''y'', ''x''},
                 music_segments = [replicate 3750 0, replicate 61250 0]\<rparr>)"
  using short_first_duration_0 short_first_duration_1 long_clip_trim_0 long_clip_trim_1
  by (simp add: short_first_def two_clips_def long_files_def process_paragraph_def
        find_closest_music_def distance_def)

text \<open>
  Claim C4, as stated, fails. With the default durations (60000, 5000, 3000) and a first
  paragraph over one sixteenth of the text, the first segment is 3750 ms long, shorter than
  the crossfade of 5000 ms, and the crossfade join of line 101 raises \<^verbatim>\<open>ValueError\<close>,
  which leaves \<^verbatim>\<open>create_music_sequence\<close>. So do the \<^verbatim>\<open>TypeError\<close> that line 118 raises
  for a fade duration of 0 and the \<^verbatim>\<open>OverflowError\<close> that the matcher raises for
  emotions far from a clip. And with an ambient volume of 0 the decibel conversion of line
  171 gives negative infinity, which \<^verbatim>\<open>main\<close> hands to the gain adjustment of the ambient
  sound.
\<close>

theorem core_never_aborts_counterexample:
  "create_music_sequence short_first two_clips long_files 60000 5000 3000 =
     Some (Inl ValueError) \<and>
   create_music_sequence two_paragraphs two_clips two_files 10 2 0 = Some (Inl TypeError) \<and>
   create_music_sequence [huge_paragraph] one_clip Map.empty 10 2 2 = Some (Inl OverflowError) \<and>
   main [] [] Map.empty [replicate 60000 0] 0 0 1 =
     Some (Inr (replicate 60000 0,
                Overlay (replicate 60000 0) (Finite 0)
                  (fade_out (fade_in (replicate 60000 0) 3000) 3000) NegInf))"
proof -
  have a: "create_music_sequence short_first two_clips long_files 60000 5000 3000 =
     Some (Inl ValueError)"
    using run_long_files
    by (simp add: create_music_sequence_def assemble_def append_crossfade_def)
  have b: "create_music_sequence two_paragraphs two_clips two_files 10 2 0 = Some (Inl TypeError)"
    using run_two_files assemble_fade_errors(1)[OF join_two, of 10]
    by (simp add: create_music_sequence_def)
  have "find_closest_music huge_target one_clip {} = Inl OverflowError"
    using distance_huge by (simp add: find_closest_music_def one_clip_def origin_def)
  then have c: "create_music_sequence [huge_paragraph] one_clip Map.empty 10 2 2
      = Some (Inl OverflowError)"
    by (simp add: create_music_sequence_def process_paragraph_def paragraph_duration_def
          int_to_float_def huge_paragraph_def one_clip_def)
  have d: "main [] [] Map.empty [replicate 60000 0] 0 0 1 =
     Some (Inr (replicate 60000 0,
                Overlay (replicate 60000 0) (Finite 0)
                  (fade_out (fade_in (replicate 60000 0) 3000) 3000) NegInf))"
    by (simp add: main_def create_music_sequence_def assemble_def silent_def
          mix_with_ambient_def ambient_to_60s_def volume_to_db_def np_log10_def)
  show ?thesis by (intro conjI) (rule a, rule b, rule c, rule d)
qed

text \<open>
  Claim C4, amended. \<^verbatim>\<open>create_music_sequence\<close> returns a buffer whenever every file
  of the library that exists decodes to a buffer that is not empty, the crossfade is not
  negative, the crossfade and the total duration are below \<open>2 ^ 1023\<close>, the fade
  duration is positive, no distance between a paragraph and a library item raises, and
  every planned duration is computed and is at least the crossfade. A paragraph without
  candidate or without loadable clip is skipped inside the loop body, which leaves the
  state as it was; when every paragraph is skipped the result is the silent buffer of the
  total duration; a missing ambient sound gives the music alone; and the decibel
  conversion of a volume \<open>v > 0\<close> is finite. A fade duration of 0 is not recovered:
  once the segments are joined, line 118 raises \<^verbatim>\<open>TypeError\<close>.
\<close>

theorem core_recovers_locally:
  "((\<forall>k seg. fs k = Some seg \<longrightarrow> seg \<noteq> []) \<and> 0 \<le> X \<and> X < 2 ^ 1023 \<and> \<bar>T\<bar> < 2 ^ 1023 \<and>
     0 < Fd \<and>
     (\<forall>p \<in> set ps. \<forall>item \<in> set L. \<exists>d. distance (emotions p) (snd item) = Inr d) \<and>
     (\<forall>(j, p) \<in> set (enumerate 0 ps). \<exists>d. paragraph_duration T X j p = Inr d \<and> X \<le> d) \<longrightarrow>
       (\<exists>buf. create_music_sequence ps L fs T X Fd = Some (Inr buf))) \<and>
   (\<forall>p st d. skipped L F (used_music st) p \<and> paragraph_duration T X i p = Inr d \<longrightarrow>
      process_paragraph L F T X i p st = Some (Inr st)) \<and>
   (\<bar>T\<bar> < 2 ^ 1023 \<and>
    (\<forall>(j, p) \<in> set (enumerate 0 ps). \<exists>d. paragraph_duration T X j p = Inr d) \<and>
    (\<forall>p \<in> set ps. skipped L (load_music_files fs L Map.empty) {} p) \<longrightarrow>
      create_music_sequence ps L fs T X Fd = Some (Inr (silent T))) \<and>
   mix_with_ambient final_audio [] pick av mv = Some (Music_Alone final_audio) \<and>
   (0 < v \<longrightarrow> is_finite (volume_to_db v)) \<and>
   (\<forall>first rest joined. join_segments first rest X = Inr joined \<and> 0 \<le> X \<and>
       \<bar>T\<bar> < 2 ^ 1023 \<longrightarrow>
      assemble (first # rest) T X 0 = Inl TypeError)"
proof -
  have a: "(\<forall>k seg. fs k = Some seg \<longrightarrow> seg \<noteq> []) \<and> 0 \<le> X \<and> X < 2 ^ 1023 \<and> \<bar>T\<bar> < 2 ^ 1023 \<and>
     0 < Fd \<and>
     (\<forall>p \<in> set ps. \<forall>item \<in> set L. \<exists>d. distance (emotions p) (snd item) = Inr d) \<and>
     (\<forall>(j, p) \<in> set (enumerate 0 ps). \<exists>d. paragraph_duration T X j p = Inr d \<and> X \<le> d) \<longrightarrow>
       (\<exists>buf. create_music_sequence ps L fs T X Fd = Some (Inr buf))"
  proof
    assume h: "(\<forall>k seg. fs k = Some seg \<longrightarrow> seg \<noteq> []) \<and> 0 \<le> X \<and> X < 2 ^ 1023 \<and>
     \<bar>T\<bar> < 2 ^ 1023 \<and> 0 < Fd \<and>
     (\<forall>p \<in> set ps. \<forall>item \<in> set L. \<exists>d. distance (emotions p) (snd item) = Inr d) \<and>
     (\<forall>(j, p) \<in> set (enumerate 0 ps). \<exists>d. paragraph_duration T X j p = Inr d \<and> X \<le> d)"
    let ?F = "load_music_files fs L Map.empty"
    have clips: "\<forall>m clip. ?F m = Some clip \<longrightarrow> clip \<noteq> []"
      using h by (auto simp: load_music_files_lookup split: if_splits option.splits)
    have X: "0 \<le> X" and pX: "\<not> seconds_raises X" and pT: "\<not> seconds_raises T"
      and Fd: "0 < Fd" using h by simp_all
    have dist: "\<forall>p \<in> set ps. \<forall>item \<in> set L. \<exists>d. distance (emotions p) (snd item) = Inr d"
      using h by blast
    have dur: "\<forall>(j, p) \<in> set (enumerate 0 ps). \<exists>d. paragraph_duration T X j p = Inr d \<and> X \<le> d"
      using h by blast
    have inv: "\<forall>s \<in> set (music_segments \<lparr>used_music = {}, music_segments = []\<rparr>).
        X \<le> int (length s)" by simp
    obtain st' :: planner_state where
      st': "process_paragraphs L ?F T X 0 ps \<lparr>used_music = {}, music_segments = []\<rparr>
              = Some (Inr st')"
        "\<forall>s \<in> set (music_segments st'). X \<le> int (length s)"
      using process_paragraphs_returns[OF clips X dist dur inv] by blast
    obtain buf where "assemble (music_segments st') T X Fd = Inr buf"
      using assemble_returns_buffer[OF Fd pT X pX st'(2)] by blast
    then show "\<exists>buf. create_music_sequence ps L fs T X Fd = Some (Inr buf)"
      using st'(1) by (simp add: create_music_sequence_def)
  qed
  have b: "\<forall>p st d. skipped L F (used_music st) p \<and> paragraph_duration T X i p = Inr d \<longrightarrow>
      process_paragraph L F T X i p st = Some (Inr st)"
    using process_paragraph_skipped[of L F _ _ T X i] by fastforce
  have c: "\<bar>T\<bar> < 2 ^ 1023 \<and>
    (\<forall>(j, p) \<in> set (enumerate 0 ps). \<exists>d. paragraph_duration T X j p = Inr d) \<and>
    (\<forall>p \<in> set ps. skipped L (load_music_files fs L Map.empty) {} p) \<longrightarrow>
      create_music_sequence ps L fs T X Fd = Some (Inr (silent T))"
  proof
    assume h: "\<bar>T\<bar> < 2 ^ 1023 \<and>
      (\<forall>(j, p) \<in> set (enumerate 0 ps). \<exists>d. paragraph_duration T X j p = Inr d) \<and>
      (\<forall>p \<in> set ps. skipped L (load_music_files fs L Map.empty) {} p)"
    have "process_paragraphs L (load_music_files fs L Map.empty) T X 0 ps
            \<lparr>used_music = {}, music_segments = []\<rparr>
          = Some (Inr \<lparr>used_music = {}, music_segments = []\<rparr>)"
      using h by (intro process_paragraphs_all_skipped) simp_all
    then show "create_music_sequence ps L fs T X Fd = Some (Inr (silent T))"
      by (simp add: create_music_sequence_def assemble_def)
  qed
  have d: "mix_with_ambient final_audio [] pick av mv = Some (Music_Alone final_audio)"
    by (simp add: mix_with_ambient_def)
  have e: "0 < v \<longrightarrow> is_finite (volume_to_db v)"
    by (simp add: volume_to_db_def np_log10_def)
  have f: "\<forall>first rest joined. join_segments first rest X = Inr joined \<and> 0 \<le> X \<and>
       \<bar>T\<bar> < 2 ^ 1023 \<longrightarrow>
      assemble (first # rest) T X 0 = Inl TypeError"
    using assemble_fade_errors(1) seconds_raises_small by blast
  show ?thesis by (intro conjI) (rule a, rule b, rule c, rule d, rule e, rule f)
qed

theorem core_recovers_locally_witness:
  "assignments two_clips two_files 16 2 0 three_paragraphs {} =
     [Some (''x'', 4), Some (''y'', 6), None] \<and>
   find_closest_music (emotions (three_paragraphs ! 2)) two_clips {''x'', ''y''} = Inr None \<and>
   (\<exists>buf. create_music_sequence three_paragraphs two_clips two_files 16 2 2 = Some (Inr buf)) \<and>
   skipped two_clips only_y {} (two_paragraphs ! 0) \<and>
   paragraph_duration 10 2 0 (two_paragraphs ! 0) = Inr 5 \<and>
   process_paragraph two_clips only_y 10 2 0 (two_paragraphs ! 0) initial_state =
     Some (Inr initial_state) \<and>
   create_music_sequence two_paragraphs two_clips Map.empty 10 2 2 = Some (Inr (silent 10)) \<and>
   mix_with_ambient [1, 2] [] 0 1 1 = Some (Music_Alone [1, 2]) \<and>
   is_finite (volume_to_db 1) \<and>
   assemble [[1, 2, 3]] 10 2 0 = Inl TypeError"
proof -
  note c4 = core_recovers_locally[where fs = two_files and X = 2 and T = 16 and Fd = 2 and ps = three_paragraphs
      and L = two_clips and F = only_y and i = 0 and v = 1 and final_audio = "[1, 2]"
      and pick = 0 and av = 1 and mv = 1]
  note c4' = core_recovers_locally[where fs = Map.empty and X = 2 and T = 10 and Fd = 2 and ps = two_paragraphs
      and L = two_clips and F = only_y and i = 0 and v = 1 and final_audio = "[1, 2]"
      and pick = 0 and av = 1 and mv = 1]
  have asg: "assignments two_clips two_files 16 2 0 three_paragraphs {} =
     [Some (''x'', 4), Some (''y'', 6), None]"
    by (simp add: three_paragraphs_def two_clips_def two_files_def step_defs)
  have nc: "find_closest_music (emotions (three_paragraphs ! 2)) two_clips {''x'', ''y''} = Inr None"
    by (simp add: three_paragraphs_def two_clips_def find_closest_music_def)
  have clips: "\<forall>k seg. two_files k = Some seg \<longrightarrow> seg \<noteq> []"
    by (auto simp: two_files_def split: if_splits)
  have dist: "\<forall>p \<in> set three_paragraphs. \<forall>item \<in> set two_clips.
      \<exists>d. distance (emotions p) (snd item) = Inr d"
    by (simp add: three_paragraphs_def two_clips_def distance_def)
  have dur: "\<forall>(j, p) \<in> set (enumerate 0 three_paragraphs).
      \<exists>d. paragraph_duration 16 2 j p = Inr d \<and> 2 \<le> d"
    by (simp add: three_paragraphs_def step_defs)
  have ret: "\<exists>buf. create_music_sequence three_paragraphs two_clips two_files 16 2 2 = Some (Inr buf)"
    using c4[THEN conjunct1] clips dist dur by simp
  have sk: "skipped two_clips only_y {} (two_paragraphs ! 0)"
    by (simp add: skipped_def two_paragraphs_def two_clips_def only_y_def find_closest_music_def
          distance_def)
  have d5: "paragraph_duration 10 2 0 (two_paragraphs ! 0) = Inr 5"
    by (simp add: two_paragraphs_def step_defs)
  have st: "process_paragraph two_clips only_y 10 2 0 (two_paragraphs ! 0) initial_state =
     Some (Inr initial_state)"
    using c4'[THEN conjunct2, THEN conjunct1, rule_format, of initial_state "two_paragraphs ! 0" 5]
      sk d5
    by (simp add: initial_state_def)
  have dur2: "\<forall>(j, p) \<in> set (enumerate 0 two_paragraphs). \<exists>d. paragraph_duration 10 2 j p = Inr d"
    by (simp add: two_paragraphs_def step_defs)
  have sk2: "\<forall>p \<in> set two_paragraphs.
      skipped two_clips (load_music_files Map.empty two_clips Map.empty) {} p"
    by (simp add: skipped_def two_paragraphs_def two_clips_def find_closest_music_def distance_def)
  have sil: "create_music_sequence two_paragraphs two_clips Map.empty 10 2 2 = Some (Inr (silent 10))"
    using c4'[THEN conjunct2, THEN conjunct2, THEN conjunct1] dur2 sk2 by simp
  have mix: "mix_with_ambient [1, 2] [] 0 1 1 = Some (Music_Alone [1, 2])"
    using c4[THEN conjunct2, THEN conjunct2, THEN conjunct2, THEN conjunct1] .
  have fin: "is_finite (volume_to_db 1)"
    using c4[THEN conjunct2, THEN conjunct2, THEN conjunct2, THEN conjunct2, THEN conjunct1]
    by simp
  have ty: "assemble [[1, 2, 3]] 10 2 0 = Inl TypeError"
    using c4'[THEN conjunct2, THEN conjunct2, THEN conjunct2, THEN conjunct2, THEN conjunct2,
              rule_format, of "[1, 2, 3]" "[]" "[1, 2, 3]"]
    by simp
  show ?thesis
    by (intro conjI) (rule asg, rule nc, rule ret, rule sk, rule d5, rule st, rule sil, rule mix,
        rule fin, rule ty)
qed

section \<open>The decibel conversion\<close>

text \<open>
  Claim C7, as stated, fails: lines 171 and 172 compute \<^verbatim>\<open>20 * np.log10(volume)\<close> for
  every volume, with no special case. For the volume 0 the gain is negative infinity, and
  it is this gain that is handed to the gain adjustment.
\<close>

theorem volume_zero_special_cased_counterexample:
  "volume_to_db 0 = NegInf \<and> \<not> is_finite (volume_to_db 0) \<and>
   mix_with_ambient [] [replicate 60000 0] 0 1 0 =
     Some (Overlay [] NegInf (fade_out (fade_in (replicate 60000 0) 3000) 3000) (Finite 0))"
  by (simp add: volume_to_db_def np_log10_def mix_with_ambient_def ambient_to_60s_def)

text \<open>
  Claim C7, amended. The mixer computes \<^verbatim>\<open>20 * np.log10(v)\<close> for every volume \<open>v\<close>
  without a guard: for \<open>v > 0\<close> the gain is the finite number \<open>20 * log10 v\<close>, for
  \<open>v = 0\<close> it is negative infinity and for \<open>v < 0\<close> it is NaN; whenever there is an
  ambient sound, the two computed gains are the ones applied to the music and to the
  ambient sound.
\<close>

theorem volume_to_db_unguarded:
  "(0 < v \<longrightarrow> volume_to_db v = Finite (20 * log 10 v)) \<and>
   volume_to_db 0 = NegInf \<and>
   (v < 0 \<longrightarrow> volume_to_db v = NaN) \<and>
   (\<forall>out. amb \<noteq> [] \<and> mix_with_ambient final amb pick av mv = Some out \<longrightarrow>
      (\<exists>a. out = Overlay final (volume_to_db mv) a (volume_to_db av)))"
proof (intro conjI allI impI)
  show "volume_to_db 0 = NegInf" by (simp add: volume_to_db_def np_log10_def)
next
  assume "0 < v"
  then show "volume_to_db v = Finite (20 * log 10 v)" by (simp add: volume_to_db_def np_log10_def)
next
  assume "v < 0"
  then show "volume_to_db v = NaN" by (simp add: volume_to_db_def np_log10_def)
next
  fix out assume "amb \<noteq> [] \<and> mix_with_ambient final amb pick av mv = Some out"
  then show "\<exists>a. out = Overlay final (volume_to_db mv) a (volume_to_db av)"
    by (auto simp: mix_with_ambient_def split: option.splits)
qed

theorem volume_to_db_unguarded_witness:
  "(0::real) < 10 \<and> volume_to_db 10 = Finite 20 \<and> (-1::real) < 0 \<and> volume_to_db (-1) = NaN \<and>
   mix_with_ambient [] [replicate 60000 0] 0 (-1) 10 =
     Some (Overlay [] (Finite 20) (fade_out (fade_in (replicate 60000 0) 3000) 3000) NaN)"
proof -
  note c7 = volume_to_db_unguarded[of 10 "[replicate 60000 0]" "[]" 0 "-1" 10]
  note c7n = volume_to_db_unguarded[of "-1" "[replicate 60000 0]" "[]" 0 "-1" 10]
  have a: "volume_to_db 10 = Finite 20" using c7[THEN conjunct1] by simp
  have b: "volume_to_db (-1) = NaN" using c7n[THEN conjunct2, THEN conjunct2, THEN conjunct1] by simp
  have m: "mix_with_ambient [] [replicate 60000 0] 0 (-1) 10 =
     Some (Overlay [] (volume_to_db 10) (fade_out (fade_in (replicate 60000 0) 3000) 3000)
             (volume_to_db (-1)))"
    by (simp add: mix_with_ambient_def ambient_to_60s_def)
  show ?thesis using a b m by simp
qed

end
